theory Spec2Isabelle
  imports Main
begin

section \<open>Strings\<close>

text \<open>
  A JavaScript string is a sequence of UTF-16 code units. The model keeps each code unit
  as a natural number, so that the display symbols outside ASCII (U+22A4, U+22A5, U+2228,
  U+2192, U+2194, U+2295, one code unit each) sit beside the ASCII ones.
  \<open>ascii\<close> turns an ASCII literal into such a string.
\<close>

type_synonym jstring = "nat list"

definition ascii :: "string \<Rightarrow> jstring" where
  "ascii s = map of_char s"

text \<open>The display symbols of \<^verbatim>\<open>types.ts\<close> that are not ASCII.\<close>

definition u_top :: nat where "u_top = 8868"        \<comment> \<open>U+22A4\<close>
definition u_bot :: nat where "u_bot = 8869"        \<comment> \<open>U+22A5\<close>
definition u_or :: nat where "u_or = 8744"          \<comment> \<open>U+2228\<close>
definition u_imp :: nat where "u_imp = 8594"        \<comment> \<open>U+2192\<close>
definition u_iff :: nat where "u_iff = 8596"        \<comment> \<open>U+2194\<close>
definition u_xor :: nat where "u_xor = 8853"        \<comment> \<open>U+2295\<close>

lemmas u_defs = u_top_def u_bot_def u_or_def u_imp_def u_iff_def u_xor_def

text \<open>
  Template-literal rendering of a number: the decimal digits, most significant first.
  JavaScript prints every integer below \<open>10^21\<close> this way.
\<close>

fun number_to_string :: "nat \<Rightarrow> jstring" where
  "number_to_string n =
     (if n < 10 then [48 + n] else number_to_string (n div 10) @ [48 + n mod 10])"

declare number_to_string.simps [simp del]

section \<open>Sentences (\<^verbatim>\<open>types.ts\<close>)\<close>

text \<open>
  A letter is the pair of its \<^verbatim>\<open>id\<close> (a string) and its \<^verbatim>\<open>index\<close>; the index is a
  non-negative integer. \<open>Sentence\<close> is the tagged union, one constructor for each tag.
  The fields are \<open>letter_id\<close> and \<open>letter_index\<close>, since \<open>id\<close> is the identity of HOL.
\<close>

datatype Letter = MkLetter (letter_id: jstring) (letter_index: nat)

datatype Sentence =
    Value bool
  | Letter Letter
  | Negation Sentence
  | Disjunction Sentence Sentence
  | Conjunction Sentence Sentence
  | Conditional Sentence Sentence
  | Biconditional Sentence Sentence
  | Xor Sentence Sentence
  | Nand Sentence Sentence

definition letter_string :: "Letter \<Rightarrow> jstring" where
  "letter_string l =
     letter_id l @ (if letter_index l > 0 then number_to_string (letter_index l) else [])"

text \<open>
  \<^verbatim>\<open>wrap_if_needed\<close> and \<^verbatim>\<open>sentence_to_string\<close> call each other; the model gives the
  mode as a flag: \<open>to_string False\<close> is \<^verbatim>\<open>sentence_to_string\<close>, \<open>to_string True\<close> is
  \<^verbatim>\<open>wrap_if_needed\<close>.
\<close>

definition binary_string :: "bool \<Rightarrow> jstring \<Rightarrow> jstring \<Rightarrow> jstring \<Rightarrow> jstring" where
  "binary_string wrapped l op r =
     (if wrapped then ascii ''('' @ l @ ascii '' '' @ op @ ascii '' '' @ r @ ascii '')''
      else l @ ascii '' '' @ op @ ascii '' '' @ r)"

fun to_string :: "bool \<Rightarrow> Sentence \<Rightarrow> jstring" where
  "to_string w (Value v) = (if v then [u_top] else [u_bot])"
| "to_string w (Letter l) = letter_string l"
| "to_string w (Negation s) = ascii ''~'' @ to_string True s"
| "to_string w (Conjunction l r) =
     binary_string w (to_string True l) (ascii ''&'') (to_string True r)"
| "to_string w (Disjunction l r) =
     binary_string w (to_string True l) [u_or] (to_string True r)"
| "to_string w (Conditional l r) =
     binary_string w (to_string True l) [u_imp] (to_string True r)"
| "to_string w (Biconditional l r) =
     binary_string w (to_string True l) [u_iff] (to_string True r)"
| "to_string w (Xor l r) =
     binary_string w (to_string True l) [u_xor] (to_string True r)"
| "to_string w (Nand l r) =
     binary_string w (to_string True l) (ascii ''|'') (to_string True r)"

definition sentence_to_string :: "Sentence \<Rightarrow> jstring" where
  "sentence_to_string s = to_string False s"

definition wrap_if_needed :: "Sentence \<Rightarrow> jstring" where
  "wrap_if_needed s = to_string True s"

text \<open>
  \<^verbatim>\<open>sentence_to_string_compact\<close> with its \<^verbatim>\<open>isTopLevel\<close> parameter, and \<^verbatim>\<open>wrap_compact\<close>
  given the two rendered operands.
\<close>

definition wrap_compact :: "jstring \<Rightarrow> jstring \<Rightarrow> jstring \<Rightarrow> bool \<Rightarrow> jstring" where
  "wrap_compact left right op isTopLevel =
     (let inner = left @ op @ right
      in if isTopLevel then inner else ascii ''('' @ inner @ ascii '')'')"

fun sentence_to_string_compact :: "Sentence \<Rightarrow> bool \<Rightarrow> jstring" where
  "sentence_to_string_compact (Value v) isTopLevel = (if v then ascii ''T'' else ascii ''F'')"
| "sentence_to_string_compact (Letter l) isTopLevel = letter_string l"
| "sentence_to_string_compact (Negation s) isTopLevel =
     ascii ''~'' @ sentence_to_string_compact s False"
| "sentence_to_string_compact (Conjunction l r) isTopLevel =
     wrap_compact (sentence_to_string_compact l False) (sentence_to_string_compact r False)
       (ascii ''&'') isTopLevel"
| "sentence_to_string_compact (Disjunction l r) isTopLevel =
     wrap_compact (sentence_to_string_compact l False) (sentence_to_string_compact r False)
       [u_or] isTopLevel"
| "sentence_to_string_compact (Conditional l r) isTopLevel =
     wrap_compact (sentence_to_string_compact l False) (sentence_to_string_compact r False)
       [u_imp] isTopLevel"
| "sentence_to_string_compact (Biconditional l r) isTopLevel =
     wrap_compact (sentence_to_string_compact l False) (sentence_to_string_compact r False)
       [u_iff] isTopLevel"
| "sentence_to_string_compact (Xor l r) isTopLevel =
     wrap_compact (sentence_to_string_compact l False) (sentence_to_string_compact r False)
       [u_xor] isTopLevel"
| "sentence_to_string_compact (Nand l r) isTopLevel =
     wrap_compact (sentence_to_string_compact l False) (sentence_to_string_compact r False)
       (ascii ''|'') isTopLevel"

text \<open>The default argument: a call with one argument renders at top level.\<close>

definition compact_key :: "Sentence \<Rightarrow> jstring" where
  "compact_key s = sentence_to_string_compact s True"

section \<open>Evaluation (\<^verbatim>\<open>truth_table.ts\<close>)\<close>

text \<open>
  The assignment is a JavaScript function that may throw; the only exception of the
  repository's lookups is the one for a letter without an entry, which carries the
  letter's display string. \<open>evaluate\<close> follows the operators of the source: \<^verbatim>\<open>&&\<close> and
  \<^verbatim>\<open>||\<close> evaluate their right operand only when the left one does not decide the result,
  \<^verbatim>\<open>===\<close> and \<^verbatim>\<open>!==\<close> evaluate both, left first.
\<close>

datatype error = UnboundLetter jstring

fun evaluate :: "(Letter \<Rightarrow> error + bool) \<Rightarrow> Sentence \<Rightarrow> error + bool" where
  "evaluate a (Value v) = Inr v"
| "evaluate a (Letter l) = a l"
| "evaluate a (Negation s) =
     (case evaluate a s of Inl e \<Rightarrow> Inl e | Inr x \<Rightarrow> Inr (\<not> x))"
| "evaluate a (Conjunction l r) =
     (case evaluate a l of Inl e \<Rightarrow> Inl e
      | Inr x \<Rightarrow> if x then evaluate a r else Inr False)"
| "evaluate a (Disjunction l r) =
     (case evaluate a l of Inl e \<Rightarrow> Inl e
      | Inr x \<Rightarrow> if x then Inr True else evaluate a r)"
| "evaluate a (Conditional l r) =
     (case evaluate a l of Inl e \<Rightarrow> Inl e
      | Inr x \<Rightarrow> if \<not> x then Inr True else evaluate a r)"
| "evaluate a (Biconditional l r) =
     (case evaluate a l of Inl e \<Rightarrow> Inl e
      | Inr x \<Rightarrow> (case evaluate a r of Inl e \<Rightarrow> Inl e | Inr y \<Rightarrow> Inr (x = y)))"
| "evaluate a (Xor l r) =
     (case evaluate a l of Inl e \<Rightarrow> Inl e
      | Inr x \<Rightarrow> (case evaluate a r of Inl e \<Rightarrow> Inl e | Inr y \<Rightarrow> Inr (x \<noteq> y)))"
| "evaluate a (Nand l r) =
     (case evaluate a l of Inl e \<Rightarrow> Inl e
      | Inr x \<Rightarrow>
          if x then (case evaluate a r of Inl e \<Rightarrow> Inl e | Inr y \<Rightarrow> Inr (\<not> y))
          else Inr True)"

text \<open>
  The lookup function that \<^verbatim>\<open>generate_truth_table\<close> builds over a row's assignment map
  (keys are display strings of letters).
\<close>

definition lookup :: "(jstring \<rightharpoonup> bool) \<Rightarrow> Letter \<Rightarrow> error + bool" where
  "lookup asg l =
     (let key = letter_string l
      in case asg key of None \<Rightarrow> Inl (UnboundLetter key) | Some val \<Rightarrow> Inr val)"

text \<open>The letters that occur in a sentence.\<close>

fun letters_of :: "Sentence \<Rightarrow> Letter set" where
  "letters_of (Value v) = {}"
| "letters_of (Letter l) = {l}"
| "letters_of (Negation s) = letters_of s"
| "letters_of (Disjunction l r) = letters_of l \<union> letters_of r"
| "letters_of (Conjunction l r) = letters_of l \<union> letters_of r"
| "letters_of (Conditional l r) = letters_of l \<union> letters_of r"
| "letters_of (Biconditional l r) = letters_of l \<union> letters_of r"
| "letters_of (Xor l r) = letters_of l \<union> letters_of r"
| "letters_of (Nand l r) = letters_of l \<union> letters_of r"

section \<open>Truth tables (\<^verbatim>\<open>truth_table.ts\<close>)\<close>







text \<open>
  \<^verbatim>\<open>Array.prototype.sort\<close> with a consistent comparison function is a stable sort; the
  model is the stable insertion sort.
\<close>

fun insert_by :: "('a \<Rightarrow> 'a \<Rightarrow> int) \<Rightarrow> 'a \<Rightarrow> 'a list \<Rightarrow> 'a list" where
  "insert_by cmp x [] = [x]"
| "insert_by cmp x (y # ys) = (if cmp x y \<le> 0 then x # y # ys else y # insert_by cmp x ys)"

definition sort_by :: "('a \<Rightarrow> 'a \<Rightarrow> int) \<Rightarrow> 'a list \<Rightarrow> 'a list" where
  "sort_by cmp xs = foldr (insert_by cmp) xs []"









text \<open>A call of a function on every element of a list, ended by the first that throws.\<close>

fun map_throwing :: "('a \<Rightarrow> error + 'b) \<Rightarrow> 'a list \<Rightarrow> error + 'b list" where
  "map_throwing f [] = Inr []"
| "map_throwing f (x # xs) =
     (case f x of Inl e \<Rightarrow> Inl e
      | Inr y \<Rightarrow> (case map_throwing f xs of Inl e \<Rightarrow> Inl e | Inr ys \<Rightarrow> Inr (y # ys)))"



section \<open>The parser (\<^verbatim>\<open>parser.ts\<close>)\<close>

text \<open>
  The grammar is written with Parsimmon's combinators. A parser is run on the rest of the
  input from its current index; it fails (\<open>None\<close>) or yields a value and the number of
  code units by which the index advances. \<^verbatim>\<open>P.alt\<close> takes the first alternative that
  succeeds, \<^verbatim>\<open>P.seq\<close> runs its parsers one after the other, \<^verbatim>\<open>p.sepBy(sep)\<close> is
  \<^verbatim>\<open>p\<close> followed by as many \<^verbatim>\<open>sep p\<close> as succeed, or the empty list when the first
  \<^verbatim>\<open>p\<close> fails.
\<close>

type_synonym 'a reply = "('a \<times> nat) option"

text \<open>The characters that \<^verbatim>\<open>\s\<close> and \<^verbatim>\<open>String.prototype.trim\<close> treat as white space.\<close>

definition is_space :: "nat \<Rightarrow> bool" where
  "is_space c \<longleftrightarrow>
     c \<in> {9, 10, 11, 12, 13, 32, 160, 5760, 8232, 8233, 8239, 8287, 12288, 65279}
     \<or> (8192 \<le> c \<and> c \<le> 8202)"

definition string_p :: "jstring \<Rightarrow> jstring \<Rightarrow> jstring reply" where
  "string_p str inp = (if take (length str) inp = str then Some (str, length str) else None)"

definition optWhitespace :: "jstring \<Rightarrow> jstring reply" where
  "optWhitespace inp = Some (takeWhile is_space inp, length (takeWhile is_space inp))"

definition orelse :: "'a option \<Rightarrow> 'a option \<Rightarrow> 'a option" where
  "orelse p q = (case p of Some r \<Rightarrow> Some r | None \<Rightarrow> q)"

definition alt_strings :: "jstring list \<Rightarrow> jstring \<Rightarrow> jstring reply" where
  "alt_strings strs inp = foldr (\<lambda>s r. orelse (string_p s inp) r) strs None"

text \<open>
  The six binary rules of \<^verbatim>\<open>SentenceLang\<close> have one shape; \<open>rule\<close> names them,
  \<open>connectives\<close> is the table of the symbols that users can type, \<open>build\<close> the builder
  each rule maps its two operands with.
\<close>

datatype rule = R_Iff | R_Imp | R_Or | R_And | R_Xor | R_Nand

fun connectives :: "rule \<Rightarrow> jstring list" where
  "connectives R_And = [ascii ''&'']"
| "connectives R_Or = [ascii ''v'']"
| "connectives R_Imp = [ascii ''->'']"
| "connectives R_Iff = [ascii ''<->'']"
| "connectives R_Xor = [ascii ''+'']"
| "connectives R_Nand = [ascii ''|'']"

definition connectives_negation :: "jstring list" where
  "connectives_negation = [ascii ''~'']"

fun build :: "rule \<Rightarrow> Sentence \<Rightarrow> Sentence \<Rightarrow> Sentence" where
  "build R_And l r = Conjunction l r"
| "build R_Or l r = Disjunction l r"
| "build R_Imp l r = Conditional l r"
| "build R_Iff l r = Biconditional l r"
| "build R_Xor l r = Xor l r"
| "build R_Nand l r = Nand l r"

text \<open>The separator of a binary rule: optional white space, the symbol, optional white space.\<close>

definition separator :: "rule \<Rightarrow> jstring \<Rightarrow> unit reply" where
  "separator c inp =
     (case optWhitespace inp of None \<Rightarrow> None | Some (_, k1) \<Rightarrow>
      (case alt_strings (connectives c) (drop k1 inp) of None \<Rightarrow> None | Some (_, k2) \<Rightarrow>
       (case optWhitespace (drop (k1 + k2) inp) of None \<Rightarrow> None | Some (_, k3) \<Rightarrow>
          Some ((), k1 + k2 + k3))))"

text \<open>\<^verbatim>\<open>P.regexp(/[A-Z]/)\<close> mapped to a letter of index 0.\<close>

definition Letter_p :: "jstring \<Rightarrow> Sentence reply" where
  "Letter_p inp =
     (case inp of [] \<Rightarrow> None
      | c # _ \<Rightarrow> if 65 \<le> c \<and> c \<le> 90 then Some (Letter (MkLetter [c] 0), 1) else None)"

text \<open>The assertion of \<^verbatim>\<open>Wrapped\<close> refuses a result whose tag is negation or letter.\<close>

fun is_letter_or_negation :: "Sentence \<Rightarrow> bool" where
  "is_letter_or_negation (Letter l) = True"
| "is_letter_or_negation (Negation s) = True"
| "is_letter_or_negation s = False"

datatype bracket = Round | Square | Curly

fun open_bracket :: "bracket \<Rightarrow> jstring" where
  "open_bracket Round = ascii ''(''"
| "open_bracket Square = ascii ''[''"
| "open_bracket Curly = ascii ''{''"

fun close_bracket :: "bracket \<Rightarrow> jstring" where
  "close_bracket Round = ascii '')''"
| "close_bracket Square = ascii '']''"
| "close_bracket Curly = ascii ''}''"

text \<open>What the primitive parsers consume; the recursion of the grammar terminates by it.\<close>

lemma string_p_Some: "string_p str inp = Some (v, k) \<Longrightarrow> k = length str \<and> k \<le> length inp"
  by (auto simp: string_p_def split: if_splits) (metis length_take min.cobounded1)

lemma alt_strings_Some:
  "alt_strings strs inp = Some (v, k) \<Longrightarrow> \<exists>s\<in>set strs. k = length s \<and> k \<le> length inp"
  by (induction strs)
     (auto simp: alt_strings_def orelse_def split: option.splits dest: string_p_Some)

lemma optWhitespace_Some: "optWhitespace inp = Some (v, k) \<Longrightarrow> k \<le> length inp"
  by (auto simp: optWhitespace_def length_takeWhile_le)

lemma connectives_nonempty: "s \<in> set (connectives c) \<Longrightarrow> 0 < length s"
  by (cases c) (auto simp: ascii_def)

lemma separator_consumes:
  assumes "separator c inp = Some (u, k)"
  shows "0 < k \<and> k \<le> length inp"
proof -
  from assms obtain v1 k1 v2 k2 v3 k3 where
    1: "optWhitespace inp = Some (v1, k1)" and
    2: "alt_strings (connectives c) (drop k1 inp) = Some (v2, k2)" and
    3: "optWhitespace (drop (k1 + k2) inp) = Some (v3, k3)" and
    k: "k = k1 + k2 + k3"
    by (auto simp: separator_def split: option.splits)
  from 1 have "k1 \<le> length inp" by (rule optWhitespace_Some)
  moreover from alt_strings_Some[OF 2] connectives_nonempty
  have "0 < k2" "k2 \<le> length (drop k1 inp)" by auto
  moreover from optWhitespace_Some[OF 3] have "k3 \<le> length (drop (k1 + k2) inp)" .
  ultimately show ?thesis using k by auto
qed

lemma open_bracket_consumes:
  "string_p (open_bracket b) inp = Some (v, k) \<Longrightarrow> k = 1 \<and> 1 \<le> length inp"
  by (cases b) (auto dest!: string_p_Some simp: ascii_def)

lemma negation_consumes:
  "alt_strings connectives_negation inp = Some (v, k) \<Longrightarrow> k = 1 \<and> 1 \<le> length inp"
  by (auto dest!: alt_strings_Some simp: connectives_negation_def ascii_def)

text \<open>
  The rules of \<^verbatim>\<open>SentenceLang\<close>. \<open>Binary_p c\<close> is the rule \<open>c\<close>: \<^verbatim>\<open>Factor\<close> separated by
  the symbol, asserted to have exactly two operands, mapped to the builder. \<open>sepBy_p\<close> and
  \<open>many_p\<close> are Parsimmon's \<^verbatim>\<open>sepBy\<close> and the \<^verbatim>\<open>many\<close> inside it, on \<^verbatim>\<open>Factor\<close>;
  \<open>bracketed_p\<close> is one of the three sequences of \<^verbatim>\<open>Wrapped\<close>.
\<close>

function Sentence_p :: "jstring \<Rightarrow> Sentence reply"
  and Binary_p :: "rule \<Rightarrow> jstring \<Rightarrow> Sentence reply"
  and sepBy_p :: "rule \<Rightarrow> jstring \<Rightarrow> (Sentence list) reply"
  and many_p :: "rule \<Rightarrow> jstring \<Rightarrow> (Sentence list) reply"
  and Factor_p :: "jstring \<Rightarrow> Sentence reply"
  and Not_p :: "jstring \<Rightarrow> Sentence reply"
  and Wrapped_p :: "jstring \<Rightarrow> Sentence reply"
  and bracketed_p :: "bracket \<Rightarrow> jstring \<Rightarrow> Sentence reply"
where
  "Sentence_p inp =
     orelse (Binary_p R_Iff inp) (orelse (Binary_p R_Imp inp) (orelse (Binary_p R_Or inp)
       (orelse (Binary_p R_And inp) (orelse (Binary_p R_Xor inp) (orelse (Binary_p R_Nand inp)
         (Factor_p inp))))))"
| "Binary_p c inp =
     (case sepBy_p c inp of None \<Rightarrow> None
      | Some (operands, k) \<Rightarrow>
          (case operands of [left, right] \<Rightarrow> Some (build c left right, k) | _ \<Rightarrow> None))"
| "sepBy_p c inp =
     (case Factor_p inp of None \<Rightarrow> Some ([], 0)
      | Some (x, k) \<Rightarrow>
          (case many_p c (drop k inp) of None \<Rightarrow> None
           | Some (xs, k') \<Rightarrow> Some (x # xs, k + k')))"
| "many_p c inp =
     (case separator c inp of None \<Rightarrow> Some ([], 0)
      | Some (_, k1) \<Rightarrow>
          (case Factor_p (drop k1 inp) of None \<Rightarrow> Some ([], 0)
           | Some (x, k2) \<Rightarrow>
               (case many_p c (drop (k1 + k2) inp) of None \<Rightarrow> None
                | Some (xs, k3) \<Rightarrow> Some (x # xs, k1 + k2 + k3))))"
| "Factor_p inp = orelse (Not_p inp) (orelse (Wrapped_p inp) (Letter_p inp))"
| "Not_p inp =
     (case alt_strings connectives_negation inp of None \<Rightarrow> None
      | Some (_, k1) \<Rightarrow>
          (case optWhitespace (drop k1 inp) of None \<Rightarrow> None
           | Some (_, k2) \<Rightarrow>
               (case Factor_p (drop (k1 + k2) inp) of None \<Rightarrow> None
                | Some (s, k3) \<Rightarrow> Some (Negation s, k1 + k2 + k3))))"
| "Wrapped_p inp =
     (case orelse (bracketed_p Round inp)
            (orelse (bracketed_p Square inp) (bracketed_p Curly inp)) of
        None \<Rightarrow> None
      | Some (s, k) \<Rightarrow> if \<not> is_letter_or_negation s then Some (s, k) else None)"
| "bracketed_p b inp =
     (case string_p (open_bracket b) inp of None \<Rightarrow> None
      | Some (_, k1) \<Rightarrow>
          (case optWhitespace (drop k1 inp) of None \<Rightarrow> None
           | Some (_, k2) \<Rightarrow>
               (case Sentence_p (drop (k1 + k2) inp) of None \<Rightarrow> None
                | Some (s, k3) \<Rightarrow>
                    (case optWhitespace (drop (k1 + k2 + k3) inp) of None \<Rightarrow> None
                     | Some (_, k4) \<Rightarrow>
                         (case string_p (close_bracket b) (drop (k1 + k2 + k3 + k4) inp) of
                            None \<Rightarrow> None
                          | Some (_, k5) \<Rightarrow> Some (s, k1 + k2 + k3 + k4 + k5))))))"
  by pat_completeness auto
termination
  apply (relation "measures [
     (\<lambda>x. case x of
             Inl (Inl (Inl inp)) \<Rightarrow> length inp | Inl (Inl (Inr (c, inp))) \<Rightarrow> length inp
           | Inl (Inr (Inl (c, inp))) \<Rightarrow> length inp | Inl (Inr (Inr (c, inp))) \<Rightarrow> length inp
           | Inr (Inl (Inl inp)) \<Rightarrow> length inp | Inr (Inl (Inr inp)) \<Rightarrow> length inp
           | Inr (Inr (Inl inp)) \<Rightarrow> length inp | Inr (Inr (Inr (b, inp))) \<Rightarrow> length inp),
     (\<lambda>x. case x of
             Inl (Inl (Inl inp)) \<Rightarrow> 7 | Inl (Inl (Inr (c, inp))) \<Rightarrow> 6
           | Inl (Inr (Inl (c, inp))) \<Rightarrow> 5 | Inl (Inr (Inr (c, inp))) \<Rightarrow> 4
           | Inr (Inl (Inl inp)) \<Rightarrow> 3 | Inr (Inl (Inr inp)) \<Rightarrow> 2
           | Inr (Inr (Inl inp)) \<Rightarrow> 2 | Inr (Inr (Inr (b, inp))) \<Rightarrow> 1)]")
  apply (auto dest!: separator_consumes open_bracket_consumes negation_consumes)
  done

declare Sentence_p.simps [simp del] Binary_p.simps [simp del] sepBy_p.simps [simp del]
  many_p.simps [simp del] Factor_p.simps [simp del] Not_p.simps [simp del]
  Wrapped_p.simps [simp del] bracketed_p.simps [simp del]

lemmas rule_simps = Sentence_p.simps Binary_p.simps sepBy_p.simps many_p.simps Factor_p.simps
  Not_p.simps Wrapped_p.simps bracketed_p.simps

text \<open>
  \<^verbatim>\<open>parse_sentence\<close>: the input is trimmed, and \<^verbatim>\<open>parse\<close> succeeds when the rule
  \<^verbatim>\<open>Sentence\<close> succeeds and has consumed the whole of it. Every failure is reported with
  the one message of \<^verbatim>\<open>diagnoseError\<close>.
\<close>

definition trim :: "jstring \<Rightarrow> jstring" where
  "trim s = rev (dropWhile is_space (rev (dropWhile is_space s)))"

definition diagnoseError :: string where
  "diagnoseError = ''Syntax error (not a wff).''"

definition parse_sentence :: "jstring \<Rightarrow> string + Sentence" where
  "parse_sentence input =
     (let trimmed = trim input
      in case Sentence_p trimmed of
           None \<Rightarrow> Inl diagnoseError
         | Some (s, k) \<Rightarrow> if k = length trimmed then Inr s else Inl diagnoseError)"

lemmas parser_defs = ascii_def orelse_def alt_strings_def string_p_def optWhitespace_def
  separator_def Letter_p_def connectives_negation_def is_space_def parse_sentence_def trim_def
  diagnoseError_def rule_simps

section \<open>Formula layout (\<^verbatim>\<open>layout.ts\<close>)\<close>

datatype FormulaToken =
    TextToken jstring
  | ValueToken jstring Sentence bool

record FormulaLayout =
  tokens :: "FormulaToken list"

text \<open>
  The inner function \<^verbatim>\<open>layout\<close> pushes tokens on one array; the model returns the tokens
  a call pushes, in order. \<open>layout_binary\<close> is the body shared by the six binary cases,
  given the tokens of the two operands and the connective's value token.
\<close>

definition layout_binary ::
  "bool \<Rightarrow> FormulaToken list \<Rightarrow> FormulaToken \<Rightarrow> FormulaToken list \<Rightarrow> FormulaToken list" where
  "layout_binary isTopLevel left conn right =
     (if \<not> isTopLevel then [TextToken (ascii ''('')] else []) @ left @ [conn] @ right @
     (if \<not> isTopLevel then [TextToken (ascii '')'')] else [])"

fun layout :: "Sentence \<Rightarrow> bool \<Rightarrow> bool \<Rightarrow> FormulaToken list" where
  "layout (Value v) isMainConnective isTopLevel =
     [ValueToken (if v then [u_top] else [u_bot]) (Value v) isMainConnective]"
| "layout (Letter l) isMainConnective isTopLevel =
     [ValueToken (letter_string l) (Letter l) isMainConnective]"
| "layout (Negation s) isMainConnective isTopLevel =
     ValueToken (ascii ''~'') (Negation s) isMainConnective # layout s False False"
| "layout (Conjunction l r) isMainConnective isTopLevel =
     layout_binary isTopLevel (layout l False False)
       (ValueToken (ascii ''&'') (Conjunction l r) isMainConnective) (layout r False False)"
| "layout (Disjunction l r) isMainConnective isTopLevel =
     layout_binary isTopLevel (layout l False False)
       (ValueToken [u_or] (Disjunction l r) isMainConnective) (layout r False False)"
| "layout (Conditional l r) isMainConnective isTopLevel =
     layout_binary isTopLevel (layout l False False)
       (ValueToken (ascii '' '' @ [u_imp] @ ascii '' '') (Conditional l r) isMainConnective)
       (layout r False False)"
| "layout (Biconditional l r) isMainConnective isTopLevel =
     layout_binary isTopLevel (layout l False False)
       (ValueToken (ascii '' '' @ [u_iff] @ ascii '' '') (Biconditional l r) isMainConnective)
       (layout r False False)"
| "layout (Xor l r) isMainConnective isTopLevel =
     layout_binary isTopLevel (layout l False False)
       (ValueToken [u_xor] (Xor l r) isMainConnective) (layout r False False)"
| "layout (Nand l r) isMainConnective isTopLevel =
     layout_binary isTopLevel (layout l False False)
       (ValueToken (ascii ''|'') (Nand l r) isMainConnective) (layout r False False)"

definition layoutFormula :: "Sentence \<Rightarrow> FormulaLayout" where
  "layoutFormula s = \<lparr>tokens = layout s True True\<rparr>"

text \<open>
  \<^verbatim>\<open>evaluateLayout\<close> keeps the value tokens and maps each to its text, the value of its
  sub-formula and its main flag. The first evaluation that throws ends the whole call.
  The filter leaves no text token, so the equation of \<open>evaluate_token\<close> for a text token
  is there for totality only.
\<close>

record EvaluatedToken =
  token_text :: jstring
  token_value :: bool
  isMain :: bool

fun is_value_token :: "FormulaToken \<Rightarrow> bool" where
  "is_value_token (ValueToken txt sub m) = True"
| "is_value_token (TextToken txt) = False"

fun evaluate_token :: "(Letter \<Rightarrow> error + bool) \<Rightarrow> FormulaToken \<Rightarrow> error + EvaluatedToken" where
  "evaluate_token a (ValueToken txt sub m) =
     (case evaluate a sub of Inl e \<Rightarrow> Inl e
      | Inr v \<Rightarrow> Inr \<lparr>token_text = txt, token_value = v, isMain = m\<rparr>)"
| "evaluate_token a (TextToken txt) = Inr \<lparr>token_text = txt, token_value = False, isMain = False\<rparr>"

definition evaluateLayout ::
  "FormulaLayout \<Rightarrow> (Letter \<Rightarrow> error + bool) \<Rightarrow> error + EvaluatedToken list" where
  "evaluateLayout lay asg =
     map_throwing (evaluate_token asg) (filter is_value_token (tokens lay))"

section \<open>Dependencies between cells (\<^verbatim>\<open>main.ts\<close>)\<close>

fun is_letter_or_value :: "Sentence \<Rightarrow> bool" where
  "is_letter_or_value (Letter l) = True"
| "is_letter_or_value (Value v) = True"
| "is_letter_or_value s = False"

fun getSubformulaDependencies :: "Sentence \<Rightarrow> Sentence list" where
  "getSubformulaDependencies (Value v) = []"
| "getSubformulaDependencies (Letter l) = []"
| "getSubformulaDependencies (Negation s) = (if is_letter_or_value s then [] else [s])"
| "getSubformulaDependencies (Disjunction l r) =
     (if \<not> is_letter_or_value l then [l] else []) @ (if \<not> is_letter_or_value r then [r] else [])"
| "getSubformulaDependencies (Conjunction l r) =
     (if \<not> is_letter_or_value l then [l] else []) @ (if \<not> is_letter_or_value r then [r] else [])"
| "getSubformulaDependencies (Conditional l r) =
     (if \<not> is_letter_or_value l then [l] else []) @ (if \<not> is_letter_or_value r then [r] else [])"
| "getSubformulaDependencies (Biconditional l r) =
     (if \<not> is_letter_or_value l then [l] else []) @ (if \<not> is_letter_or_value r then [r] else [])"
| "getSubformulaDependencies (Xor l r) =
     (if \<not> is_letter_or_value l then [l] else []) @ (if \<not> is_letter_or_value r then [r] else [])"
| "getSubformulaDependencies (Nand l r) =
     (if \<not> is_letter_or_value l then [l] else []) @ (if \<not> is_letter_or_value r then [r] else [])"

text \<open>
  \<^verbatim>\<open>Array.prototype.forEach\<close> with the element's index, over a state that the callback
  updates: the two maps of \<^verbatim>\<open>renderTruthTable\<close> are built by nested calls of it.
\<close>

fun forEach :: "('a \<Rightarrow> nat \<Rightarrow> 's \<Rightarrow> 's) \<Rightarrow> 'a list \<Rightarrow> nat \<Rightarrow> 's \<Rightarrow> 's" where
  "forEach f [] i st = st"
| "forEach f (x # xs) i st = forEach f xs (Suc i) (f x i st)"

record Cell =
  formulaIdx :: nat
  tokenIdx :: nat

text \<open>The tokens that get an entry: value tokens whose sub-formula is no letter and no constant.\<close>

fun quasi_subformula :: "FormulaToken \<Rightarrow> Sentence option" where
  "quasi_subformula (TextToken txt) = None"
| "quasi_subformula (ValueToken txt sub m) = (if is_letter_or_value sub then None else Some sub)"

definition subformulaToCell :: "FormulaLayout list \<Rightarrow> (jstring \<rightharpoonup> Cell)" where
  "subformulaToCell layouts =
     forEach (\<lambda>lay fi. forEach (\<lambda>token ti m.
         (case quasi_subformula token of None \<Rightarrow> m
          | Some sub \<Rightarrow> m(compact_key sub \<mapsto> \<lparr>formulaIdx = fi, tokenIdx = ti\<rparr>)))
       (tokens lay) 0) layouts 0 Map.empty"

definition cell_key :: "nat \<Rightarrow> nat \<Rightarrow> jstring" where
  "cell_key fi ti = number_to_string fi @ ascii ''-'' @ number_to_string ti"

text \<open>The keys of the cells that the dependencies of one sub-formula resolve to.\<close>

definition depCellKeys :: "(jstring \<rightharpoonup> Cell) \<Rightarrow> Sentence \<Rightarrow> jstring list" where
  "depCellKeys cells sub =
     concat (map (\<lambda>dep. case cells (compact_key dep) of None \<Rightarrow> []
                         | Some depCell \<Rightarrow> [cell_key (formulaIdx depCell) (tokenIdx depCell)])
               (getSubformulaDependencies sub))"

definition cellDependencies :: "FormulaLayout list \<Rightarrow> (jstring \<rightharpoonup> jstring list)" where
  "cellDependencies layouts =
     (let cells = subformulaToCell layouts
      in forEach (\<lambda>lay fi. forEach (\<lambda>token ti m.
           (case quasi_subformula token of None \<Rightarrow> m
            | Some sub \<Rightarrow> m(cell_key fi ti \<mapsto> depCellKeys cells sub)))
         (tokens lay) 0) layouts 0 Map.empty)"

section \<open>Notions of the specification\<close>

text \<open>The builder \<^verbatim>\<open>sentence.letter(id)\<close> with the index left out.\<close>

abbreviation sentence_letter :: "string \<Rightarrow> Sentence" where
  "sentence_letter name \<equiv> Letter (MkLetter (ascii name) 0)"

text \<open>
  The standard truth tables, as the specification words them for the eight variants,
  over a total assignment.
\<close>

fun standard_value :: "(Letter \<Rightarrow> bool) \<Rightarrow> Sentence \<Rightarrow> bool" where
  "standard_value f (Value v) = v"
| "standard_value f (Letter l) = f l"
| "standard_value f (Negation s) = (\<not> standard_value f s)"
| "standard_value f (Conjunction l r) = (standard_value f l \<and> standard_value f r)"
| "standard_value f (Disjunction l r) = (standard_value f l \<or> standard_value f r)"
| "standard_value f (Conditional l r) = (\<not> standard_value f l \<or> standard_value f r)"
| "standard_value f (Biconditional l r) = (standard_value f l = standard_value f r)"
| "standard_value f (Xor l r) = (standard_value f l \<noteq> standard_value f r)"
| "standard_value f (Nand l r) = (\<not> (standard_value f l \<and> standard_value f r))"

text \<open>The main flag of a token (text tokens have none).\<close>

fun is_main_token :: "FormulaToken \<Rightarrow> bool" where
  "is_main_token (ValueToken txt sub m) = m"
| "is_main_token (TextToken txt) = False"

text \<open>The immediate operands of a node.\<close>

fun operands :: "Sentence \<Rightarrow> Sentence list" where
  "operands (Value v) = []"
| "operands (Letter l) = []"
| "operands (Negation s) = [s]"
| "operands (Disjunction l r) = [l, r]"
| "operands (Conjunction l r) = [l, r]"
| "operands (Conditional l r) = [l, r]"
| "operands (Biconditional l r) = [l, r]"
| "operands (Xor l r) = [l, r]"
| "operands (Nand l r) = [l, r]"

text \<open>
  The cells that get an entry in the two maps of \<^verbatim>\<open>renderTruthTable\<close>, with their
  sub-formulas, in the order in which the nested \<^verbatim>\<open>forEach\<close> visits them: formula by
  formula, and token by token within a formula.
\<close>
fun quasi_tokens :: "nat \<Rightarrow> FormulaToken list \<Rightarrow> nat \<Rightarrow> (Cell \<times> Sentence) list" where
  "quasi_tokens fi [] ti = []"
| "quasi_tokens fi (t # ts) ti =
     (case quasi_subformula t of None \<Rightarrow> []
      | Some sub \<Rightarrow> [(\<lparr>formulaIdx = fi, tokenIdx = ti\<rparr>, sub)]) @ quasi_tokens fi ts (Suc ti)"

fun quasi_cells :: "FormulaLayout list \<Rightarrow> nat \<Rightarrow> (Cell \<times> Sentence) list" where
  "quasi_cells [] fi = []"
| "quasi_cells (lay # lays) fi = quasi_tokens fi (tokens lay) 0 @ quasi_cells lays (Suc fi)"

text \<open>The order of the visit, and the cells at which a key occurs.\<close>

definition cell_before :: "Cell \<Rightarrow> Cell \<Rightarrow> bool" where
  "cell_before c c' \<longleftrightarrow>
     formulaIdx c < formulaIdx c' \<or> (formulaIdx c = formulaIdx c' \<and> tokenIdx c < tokenIdx c')"

definition occurs :: "FormulaLayout list \<Rightarrow> jstring \<Rightarrow> Cell \<Rightarrow> bool" where
  "occurs layouts key c \<longleftrightarrow>
     formulaIdx c < length layouts \<and> tokenIdx c < length (tokens (layouts ! formulaIdx c)) \<and>
     (\<exists>sub. quasi_subformula (tokens (layouts ! formulaIdx c) ! tokenIdx c) = Some sub
         \<and> compact_key sub = key)"


text \<open>The binary digits of a number, most significant first, at a fixed width.\<close>

fun bits :: "nat \<Rightarrow> nat \<Rightarrow> jstring" where
  "bits 0 k = []"
| "bits (Suc n) k = bits n (k div 2) @ [48 + k mod 2]"


text \<open>
  A letter as the data model has it: its id is one upper-case ASCII letter. The order of
  the letters: by id, as the comparison of the platform orders ids, then by index.
\<close>

definition valid_letter :: "Letter \<Rightarrow> bool" where
  "valid_letter l \<longleftrightarrow> (\<exists>c. letter_id l = [c] \<and> 65 \<le> c \<and> c \<le> 90)"






text \<open>
  The sentences that have no constant and whose letters have an id of one upper-case
  letter (any index): the parser's sentences are among them.
\<close>

fun plain :: "Sentence \<Rightarrow> bool" where
  "plain (Value v) = False"
| "plain (Letter l) = valid_letter l"
| "plain (Negation s) = plain s"
| "plain (Disjunction l r) = (plain l \<and> plain r)"
| "plain (Conjunction l r) = (plain l \<and> plain r)"
| "plain (Conditional l r) = (plain l \<and> plain r)"
| "plain (Biconditional l r) = (plain l \<and> plain r)"
| "plain (Xor l r) = (plain l \<and> plain r)"
| "plain (Nand l r) = (plain l \<and> plain r)"

text \<open>The connective's compact symbol and the two operands of a binary node.\<close>

fun binary_parts :: "Sentence \<Rightarrow> (nat \<times> Sentence \<times> Sentence) option" where
  "binary_parts (Conjunction l r) = Some (38, l, r)"
| "binary_parts (Disjunction l r) = Some (u_or, l, r)"
| "binary_parts (Conditional l r) = Some (u_imp, l, r)"
| "binary_parts (Biconditional l r) = Some (u_iff, l, r)"
| "binary_parts (Xor l r) = Some (u_xor, l, r)"
| "binary_parts (Nand l r) = Some (124, l, r)"
| "binary_parts s = None"

text \<open>Decimal digits, and strings that do not go on with one.\<close>

definition is_digit :: "nat \<Rightarrow> bool" where
  "is_digit c \<longleftrightarrow> 48 \<le> c \<and> c \<le> 57"

definition no_digit_ahead :: "jstring \<Rightarrow> bool" where
  "no_digit_ahead r \<longleftrightarrow> (case r of [] \<Rightarrow> True | c # _ \<Rightarrow> \<not> is_digit c)"


text \<open>
  The sentences that the parser can return: no constant, and every letter has an id of
  one upper-case letter and the index 0.
\<close>

fun parsed_form :: "Sentence \<Rightarrow> bool" where
  "parsed_form (Value v) = False"
| "parsed_form (Letter l) = (\<exists>c. l = MkLetter [c] 0 \<and> 65 \<le> c \<and> c \<le> 90)"
| "parsed_form (Negation s) = parsed_form s"
| "parsed_form (Disjunction l r) = (parsed_form l \<and> parsed_form r)"
| "parsed_form (Conjunction l r) = (parsed_form l \<and> parsed_form r)"
| "parsed_form (Conditional l r) = (parsed_form l \<and> parsed_form r)"
| "parsed_form (Biconditional l r) = (parsed_form l \<and> parsed_form r)"
| "parsed_form (Xor l r) = (parsed_form l \<and> parsed_form r)"
| "parsed_form (Nand l r) = (parsed_form l \<and> parsed_form r)"



text \<open>
  The sentences whose connectives are displayed with the symbol that is typed for them:
  negation, conjunction and nand.
\<close>

fun only_typed_symbols :: "Sentence \<Rightarrow> bool" where
  "only_typed_symbols (Value v) = True"
| "only_typed_symbols (Letter l) = True"
| "only_typed_symbols (Negation s) = only_typed_symbols s"
| "only_typed_symbols (Conjunction l r) = (only_typed_symbols l \<and> only_typed_symbols r)"
| "only_typed_symbols (Nand l r) = (only_typed_symbols l \<and> only_typed_symbols r)"
| "only_typed_symbols (Disjunction l r) = False"
| "only_typed_symbols (Conditional l r) = False"
| "only_typed_symbols (Biconditional l r) = False"
| "only_typed_symbols (Xor l r) = False"

text \<open>The characters a rendered sentence can start with.\<close>

definition solid :: "nat \<Rightarrow> bool" where
  "solid c \<longleftrightarrow> (65 \<le> c \<and> c \<le> 90) \<or> c = 126 \<or> c = 40"


text \<open>
  The characters of the grammar: white space, the upper-case letters, and the characters
  of the connective symbols and brackets; and inputs whose first \<open>k\<close> characters are
  among them.
\<close>

definition grammar_char :: "nat \<Rightarrow> bool" where
  "grammar_char c \<longleftrightarrow>
     is_space c \<or> (65 \<le> c \<and> c \<le> 90)
     \<or> c \<in> set (ascii ''~&v-><+|()[]{}'')"

definition grammatical :: "nat \<Rightarrow> jstring \<Rightarrow> bool" where
  "grammatical k inp \<longleftrightarrow> k \<le> length inp \<and> (\<forall>c\<in>set (take k inp). grammar_char c)"


section \<open>Evaluation: properties\<close>

lemma evaluate_total: "evaluate (\<lambda>l. Inr (f l)) s = Inr (standard_value f s)"
  by (induction s) simp_all

lemma evaluate_error_source: "evaluate a s = Inl e \<Longrightarrow> \<exists>l\<in>letters_of s. a l = Inl e"
  by (induction s) (auto split: sum.splits if_splits)

lemma evaluate_bound_returns:
  "(\<And>l. l \<in> letters_of s \<Longrightarrow> \<exists>v. a l = Inr v) \<Longrightarrow> \<exists>v. evaluate a s = Inr v"
proof (induction s)
  case (Value x)
  then show ?case by simp
next
  case (Letter x)
  then show ?case by simp
next
  case (Negation s)
  then show ?case by (auto split: sum.splits)
next
  case (Disjunction s1 s2)
  then have "\<exists>v. evaluate a s1 = Inr v" "\<exists>v. evaluate a s2 = Inr v" by auto
  then show ?case by auto
next
  case (Conjunction s1 s2)
  then have "\<exists>v. evaluate a s1 = Inr v" "\<exists>v. evaluate a s2 = Inr v" by auto
  then show ?case by auto
next
  case (Conditional s1 s2)
  then have "\<exists>v. evaluate a s1 = Inr v" "\<exists>v. evaluate a s2 = Inr v" by auto
  then show ?case by auto
next
  case (Biconditional s1 s2)
  then have "\<exists>v. evaluate a s1 = Inr v" "\<exists>v. evaluate a s2 = Inr v" by auto
  then show ?case by auto
next
  case (Xor s1 s2)
  then have "\<exists>v. evaluate a s1 = Inr v" "\<exists>v. evaluate a s2 = Inr v" by auto
  then show ?case by auto
next
  case (Nand s1 s2)
  then have "\<exists>v. evaluate a s1 = Inr v" "\<exists>v. evaluate a s2 = Inr v" by auto
  then show ?case by auto
qed

lemma lookup_Inl:
  "lookup m l = Inl e \<longleftrightarrow> m (letter_string l) = None \<and> e = UnboundLetter (letter_string l)"
  by (auto simp: lookup_def Let_def split: option.splits)

lemma lookup_Inr: "lookup m l = Inr v \<longleftrightarrow> m (letter_string l) = Some v"
  by (auto simp: lookup_def Let_def split: option.splits)

lemma lookup_bound_returns:
  assumes "\<forall>l\<in>letters_of s. m (letter_string l) \<noteq> None"
  shows "\<exists>v. evaluate (lookup m) s = Inr v"
proof (rule evaluate_bound_returns)
  fix l assume "l \<in> letters_of s"
  with assms obtain v where "m (letter_string l) = Some v" by auto
  then show "\<exists>v. lookup m l = Inr v" by (auto simp: lookup_Inr)
qed

lemma lookup_error_source:
  assumes "evaluate (lookup m) s = Inl e"
  shows "\<exists>l\<in>letters_of s. m (letter_string l) = None \<and> e = UnboundLetter (letter_string l)"
  using evaluate_error_source[OF assms] by (auto simp: lookup_Inl)

text \<open>
  C3 (as the code has it). \<open>evaluate\<close> evaluates the left operand of every binary node, and
  the right operand unless \<^verbatim>\<open>&&\<close> or \<^verbatim>\<open>||\<close> has decided the result by the left one: a
  false left operand decides conjunction, nand and conditional, a true one decides
  disjunction; biconditional and xor evaluate both. It fails with UnboundLetter only for
  a letter of the sentence that has no entry, naming that letter, and it returns a value
  when every letter of the sentence has an entry. A failure of an operand that is
  evaluated is the failure of the node: of the left operand and of the operand of a
  negation always, of the right operand under a true left operand for conjunction,
  conditional and nand, under a false one for disjunction, under either for
  biconditional and xor. Where the operands that are evaluated return values, the node
  returns the value of its connective; a constant returns itself and a letter what the
  assignment gives.
\<close>

theorem evaluate_raises_for_reached_letters:
  "(evaluate (lookup m) s = Inl e \<longrightarrow>
      (\<exists>l\<in>letters_of s. m (letter_string l) = None \<and> e = UnboundLetter (letter_string l)))
   \<and> ((\<forall>l\<in>letters_of s. m (letter_string l) \<noteq> None) \<longrightarrow> (\<exists>v. evaluate (lookup m) s = Inr v))
   \<and> (evaluate a x = Inr False \<longrightarrow>
        evaluate a (Conjunction x y) = Inr False \<and> evaluate a (Nand x y) = Inr True
        \<and> evaluate a (Conditional x y) = Inr True
        \<and> evaluate a (Disjunction x y) = evaluate a y)
   \<and> (evaluate a x = Inr True \<longrightarrow>
        evaluate a (Disjunction x y) = Inr True
        \<and> evaluate a (Conjunction x y) = evaluate a y
        \<and> evaluate a (Conditional x y) = evaluate a y
        \<and> (evaluate a y = Inl e' \<longrightarrow> evaluate a (Nand x y) = Inl e')
        \<and> (evaluate a y = Inr w \<longrightarrow> evaluate a (Nand x y) = Inr (\<not> w)))
   \<and> (evaluate a x = Inr v \<and> evaluate a y = Inl e' \<longrightarrow>
        evaluate a (Biconditional x y) = Inl e' \<and> evaluate a (Xor x y) = Inl e')
   \<and> (evaluate a x = Inr v \<and> evaluate a y = Inr w \<longrightarrow>
        evaluate a (Biconditional x y) = Inr (v = w) \<and> evaluate a (Xor x y) = Inr (v \<noteq> w))
   \<and> (evaluate a x = Inl e' \<longrightarrow>
        evaluate a (Negation x) = Inl e' \<and> evaluate a (Conjunction x y) = Inl e'
        \<and> evaluate a (Disjunction x y) = Inl e' \<and> evaluate a (Conditional x y) = Inl e'
        \<and> evaluate a (Biconditional x y) = Inl e' \<and> evaluate a (Xor x y) = Inl e'
        \<and> evaluate a (Nand x y) = Inl e')
   \<and> (evaluate a x = Inr v \<longrightarrow> evaluate a (Negation x) = Inr (\<not> v))
   \<and> evaluate a (Value b) = Inr b
   \<and> evaluate a (Letter l) = a l"
proof -
  have 1: "evaluate (lookup m) s = Inl e \<longrightarrow>
      (\<exists>l\<in>letters_of s. m (letter_string l) = None \<and> e = UnboundLetter (letter_string l))"
    using lookup_error_source by blast
  have 2: "(\<forall>l\<in>letters_of s. m (letter_string l) \<noteq> None) \<longrightarrow>
      (\<exists>v. evaluate (lookup m) s = Inr v)"
    using lookup_bound_returns by blast
  show ?thesis using 1 2 by simp
qed

theorem evaluate_raises_for_reached_letters_witness:
  "evaluate (lookup (Map.empty(ascii ''A'' \<mapsto> True)))
      (Conjunction (sentence_letter ''A'') (sentence_letter ''B''))
     = Inl (UnboundLetter (ascii ''B''))
   \<and> (\<exists>l\<in>letters_of (Conjunction (sentence_letter ''A'') (sentence_letter ''B'')).
        (Map.empty(ascii ''A'' \<mapsto> True)) (letter_string l) = None
        \<and> UnboundLetter (ascii ''B'') = UnboundLetter (letter_string l))
   \<and> (\<exists>v. evaluate (lookup (Map.empty(ascii ''A'' \<mapsto> True, ascii ''B'' \<mapsto> False)))
        (Conjunction (sentence_letter ''A'') (sentence_letter ''B'')) = Inr v)
   \<and> evaluate (lookup (Map.empty(ascii ''A'' \<mapsto> True)))
        (Nand (sentence_letter ''A'') (sentence_letter ''B''))
     = Inl (UnboundLetter (ascii ''B''))
   \<and> evaluate (lookup (Map.empty(ascii ''A'' \<mapsto> True, ascii ''B'' \<mapsto> False)))
        (Nand (sentence_letter ''A'') (sentence_letter ''B'')) = Inr True
   \<and> evaluate (lookup (Map.empty(ascii ''A'' \<mapsto> True, ascii ''B'' \<mapsto> False)))
        (Xor (sentence_letter ''A'') (sentence_letter ''B'')) = Inr True"
proof -
  let ?A = "sentence_letter ''A''"
  let ?B = "sentence_letter ''B''"
  let ?s = "Conjunction ?A ?B"
  let ?m = "Map.empty(ascii ''A'' \<mapsto> True)"
  let ?m2 = "Map.empty(ascii ''A'' \<mapsto> True, ascii ''B'' \<mapsto> False)"
  let ?e = "UnboundLetter (ascii ''B'')"
  have e: "evaluate (lookup ?m) ?s = Inl ?e"
    by (simp add: lookup_def letter_string_def ascii_def)
  have b: "\<forall>l\<in>letters_of ?s. ?m2 (letter_string l) \<noteq> None"
    by (auto simp: letter_string_def ascii_def)
  have xa: "evaluate (lookup ?m) ?A = Inr True"
    and xb: "evaluate (lookup ?m) ?B = Inl ?e"
    and ya: "evaluate (lookup ?m2) ?A = Inr True"
    and yb: "evaluate (lookup ?m2) ?B = Inr False"
    by (simp_all add: lookup_def letter_string_def ascii_def)
  from evaluate_raises_for_reached_letters [where m = ?m and s = ?s and e = ?e] e
  have 1: "\<exists>l\<in>letters_of ?s. ?m (letter_string l) = None
             \<and> UnboundLetter (ascii ''B'') = UnboundLetter (letter_string l)"
    by blast
  from evaluate_raises_for_reached_letters [where m = ?m2 and s = ?s] b
  have 2: "\<exists>v. evaluate (lookup ?m2) ?s = Inr v"
    by blast
  from evaluate_raises_for_reached_letters
         [where a = "lookup ?m" and x = ?A and y = ?B and e' = ?e] xa xb
  have 3: "evaluate (lookup ?m) (Nand ?A ?B) = Inl ?e"
    by blast
  from evaluate_raises_for_reached_letters
         [where a = "lookup ?m2" and x = ?A and y = ?B and w = False and v = True] ya yb
  have 4: "evaluate (lookup ?m2) (Nand ?A ?B) = Inr True"
    "evaluate (lookup ?m2) (Xor ?A ?B) = Inr True"
    by simp_all
  from e 1 2 3 4 show ?thesis by blast
qed

text \<open>
  C3 as stated fails: with \<open>A\<close> false and no entry for \<open>B\<close>, the conjunction of \<open>A\<close> and
  \<open>B\<close> evaluates to false; \<open>B\<close> is not looked up.
\<close>

theorem evaluate_short_circuit_counterexample:
  "\<not> (\<forall>m x y. evaluate (lookup m) x = Inr False
          \<and> (\<exists>l\<in>letters_of y. m (letter_string l) = None)
        \<longrightarrow> (\<exists>e. evaluate (lookup m) (Conjunction x y) = Inl e))"
proof
  assume h: "\<forall>m x y. evaluate (lookup m) x = Inr False
          \<and> (\<exists>l\<in>letters_of y. m (letter_string l) = None)
        \<longrightarrow> (\<exists>e. evaluate (lookup m) (Conjunction x y) = Inl e)"
  let ?m = "Map.empty(ascii ''A'' \<mapsto> False)"
  have 1: "evaluate (lookup ?m) (sentence_letter ''A'') = Inr False"
    by (simp add: lookup_def letter_string_def ascii_def)
  have 2: "\<exists>l\<in>letters_of (sentence_letter ''B''). ?m (letter_string l) = None"
    by (simp add: letter_string_def ascii_def)
  from h 1 2 have "\<exists>e. evaluate (lookup ?m)
      (Conjunction (sentence_letter ''A'') (sentence_letter ''B'')) = Inl e"
    by blast
  then show False
    by (simp add: lookup_def letter_string_def ascii_def)
qed

text \<open>
  C4. Under a total assignment \<open>evaluate\<close> returns the value of the standard truth
  tables: the constant itself, the assigned value of a letter, negation, and, or,
  \<open>\<not> a \<or> b\<close> for the conditional, equality for the biconditional, inequality for xor and
  \<open>\<not> (a \<and> b)\<close> for nand; the four named entries of the tables are as the claim lists them.
\<close>

theorem evaluate_standard_truth_tables:
  "evaluate (\<lambda>l. Inr (f l)) s = Inr (standard_value f s)
   \<and> evaluate a (Nand (Value True) (Value True)) = Inr False
   \<and> evaluate a (Nand (Value True) (Value False)) = Inr True
   \<and> evaluate a (Xor (Value True) (Value True)) = Inr False
   \<and> evaluate a (Conditional (Value False) (Value False)) = Inr True"
  by (simp add: evaluate_total)

theorem evaluate_standard_truth_tables_witness:
  "evaluate (\<lambda>l. Inr (letter_id l = ascii ''A''))
     (Conditional (sentence_letter ''B'') (sentence_letter ''C'')) = Inr True
   \<and> evaluate (\<lambda>l. Inr (letter_id l = ascii ''A''))
     (Nand (sentence_letter ''A'') (sentence_letter ''A'')) = Inr False"
  using evaluate_standard_truth_tables
          [of "\<lambda>l. letter_id l = ascii ''A''"
              "Conditional (sentence_letter ''B'') (sentence_letter ''C'')" "\<lambda>l. Inr True"]
        evaluate_standard_truth_tables
          [of "\<lambda>l. letter_id l = ascii ''A''"
              "Nand (sentence_letter ''A'') (sentence_letter ''A'')" "\<lambda>l. Inr True"]
  by (simp add: ascii_def)

section \<open>The parser: grouping\<close>

lemma conjunction_associative:
  "evaluate a (Conjunction x (Conjunction y z)) = evaluate a (Conjunction (Conjunction x y) z)"
  by (auto split: sum.splits)

lemma Binary_p_needs_two:
  "sepBy_p c inp = Some (xs, k) \<Longrightarrow> length xs \<noteq> 2 \<Longrightarrow> Binary_p c inp = None"
  by (cases xs; cases "tl xs"; cases "tl (tl xs)") (auto simp: Binary_p.simps[of c inp])

text \<open>
  C6. A binary rule fails whenever its operands, separated by its symbol, are not
  exactly two. A chain of three operands of one connective without grouping is refused,
  for \<open>A & B & C\<close> and for the like chain of each of the other five connectives.
  \<open>A & (B & C)\<close> parses, \<open>(A & B) & C\<close> parses, and the two results have the same
  evaluation under every assignment, one that throws included.
\<close>

theorem chained_connective_rejected:
  "(\<forall>xs k. sepBy_p c inp = Some (xs, k) \<and> length xs \<noteq> 2 \<longrightarrow> Binary_p c inp = None)
   \<and> parse_sentence (ascii ''A & B & C'') = Inl diagnoseError
   \<and> parse_sentence (ascii ''A v B v C'') = Inl diagnoseError
   \<and> parse_sentence (ascii ''A -> B -> C'') = Inl diagnoseError
   \<and> parse_sentence (ascii ''A <-> B <-> C'') = Inl diagnoseError
   \<and> parse_sentence (ascii ''A + B + C'') = Inl diagnoseError
   \<and> parse_sentence (ascii ''A | B | C'') = Inl diagnoseError
   \<and> parse_sentence (ascii ''A & (B & C)'') =
       Inr (Conjunction (sentence_letter ''A'')
             (Conjunction (sentence_letter ''B'') (sentence_letter ''C'')))
   \<and> parse_sentence (ascii ''(A & B) & C'') =
       Inr (Conjunction (Conjunction (sentence_letter ''A'') (sentence_letter ''B''))
             (sentence_letter ''C''))
   \<and> (\<forall>a. evaluate a (Conjunction (sentence_letter ''A'')
                 (Conjunction (sentence_letter ''B'') (sentence_letter ''C''))) =
            evaluate a (Conjunction (Conjunction (sentence_letter ''A'') (sentence_letter ''B''))
                 (sentence_letter ''C'')))"
proof -
  have 1: "parse_sentence (ascii ''A & B & C'') = Inl diagnoseError"
    by (simp add: parser_defs)
  have 2: "parse_sentence (ascii ''A v B v C'') = Inl diagnoseError"
    by (simp add: parser_defs)
  have 3: "parse_sentence (ascii ''A -> B -> C'') = Inl diagnoseError"
    by (simp add: parser_defs)
  have 4: "parse_sentence (ascii ''A <-> B <-> C'') = Inl diagnoseError"
    by (simp add: parser_defs)
  have 5: "parse_sentence (ascii ''A + B + C'') = Inl diagnoseError"
    by (simp add: parser_defs)
  have 6: "parse_sentence (ascii ''A | B | C'') = Inl diagnoseError"
    by (simp add: parser_defs)
  have 7: "parse_sentence (ascii ''A & (B & C)'') =
       Inr (Conjunction (sentence_letter ''A'')
             (Conjunction (sentence_letter ''B'') (sentence_letter ''C'')))"
    by (simp add: parser_defs)
  have 8: "parse_sentence (ascii ''(A & B) & C'') =
       Inr (Conjunction (Conjunction (sentence_letter ''A'') (sentence_letter ''B''))
             (sentence_letter ''C''))"
    by (simp add: parser_defs)
  have 9: "\<forall>xs k. sepBy_p c inp = Some (xs, k) \<and> length xs \<noteq> 2 \<longrightarrow> Binary_p c inp = None"
    using Binary_p_needs_two by blast
  show ?thesis
    using 1 2 3 4 5 6 7 8 9 conjunction_associative by presburger
qed

theorem chained_connective_rejected_witness:
  "sepBy_p R_And (ascii ''A & B & C'') =
     Some ([sentence_letter ''A'', sentence_letter ''B'', sentence_letter ''C''], 9)
   \<and> Binary_p R_And (ascii ''A & B & C'') = None"
proof -
  have s: "sepBy_p R_And (ascii ''A & B & C'') =
     Some ([sentence_letter ''A'', sentence_letter ''B'', sentence_letter ''C''], 9)"
    by (simp add: parser_defs)
  have "length [sentence_letter ''A'', sentence_letter ''B'', sentence_letter ''C''] \<noteq> 2"
    by simp
  with chained_connective_rejected [of R_And "ascii ''A & B & C''"] s
  have "Binary_p R_And (ascii ''A & B & C'') = None" by blast
  with s show ?thesis by blast
qed

lemma Wrapped_p_binary: "Wrapped_p inp = Some (s, k) \<Longrightarrow> \<not> is_letter_or_negation s"
  by (auto simp: Wrapped_p.simps[of inp] split: option.splits if_splits)

text \<open>
  C7. What the rule \<^verbatim>\<open>Wrapped\<close> returns is never a letter and never a negation. Brackets
  directly around a letter or around a negation are refused, whichever of the three
  kinds of bracket; the letter and the negation alone parse.
\<close>

theorem wrapped_atom_or_negation_rejected:
  "(\<forall>s k. Wrapped_p inp = Some (s, k) \<longrightarrow> \<not> is_letter_or_negation s)
   \<and> parse_sentence (ascii ''(A)'') = Inl diagnoseError
   \<and> parse_sentence (ascii ''(~A)'') = Inl diagnoseError
   \<and> parse_sentence (ascii ''[A]'') = Inl diagnoseError
   \<and> parse_sentence (ascii ''{~A}'') = Inl diagnoseError
   \<and> parse_sentence (ascii ''A'') = Inr (sentence_letter ''A'')
   \<and> parse_sentence (ascii ''~A'') = Inr (Negation (sentence_letter ''A''))"
proof -
  have 1: "parse_sentence (ascii ''(A)'') = Inl diagnoseError"
    by (simp add: parser_defs)
  have 2: "parse_sentence (ascii ''(~A)'') = Inl diagnoseError"
    by (simp add: parser_defs)
  have 3: "parse_sentence (ascii ''[A]'') = Inl diagnoseError"
    by (simp add: parser_defs)
  have 4: "parse_sentence (ascii ''{~A}'') = Inl diagnoseError"
    by (simp add: parser_defs)
  have 5: "parse_sentence (ascii ''A'') = Inr (sentence_letter ''A'')"
    by (simp add: parser_defs)
  have 6: "parse_sentence (ascii ''~A'') = Inr (Negation (sentence_letter ''A''))"
    by (simp add: parser_defs)
  have 7: "\<forall>s k. Wrapped_p inp = Some (s, k) \<longrightarrow> \<not> is_letter_or_negation s"
    using Wrapped_p_binary by blast
  show ?thesis
    using 1 2 3 4 5 6 7 by presburger
qed

theorem wrapped_atom_or_negation_rejected_witness:
  "Wrapped_p (ascii ''(A & B)'') =
     Some (Conjunction (sentence_letter ''A'') (sentence_letter ''B''), 7)
   \<and> \<not> is_letter_or_negation (Conjunction (sentence_letter ''A'') (sentence_letter ''B''))
   \<and> Wrapped_p (ascii ''(~A)'') = None"
proof -
  have w: "Wrapped_p (ascii ''(A & B)'') =
     Some (Conjunction (sentence_letter ''A'') (sentence_letter ''B''), 7)"
    by (simp add: parser_defs)
  have n: "Wrapped_p (ascii ''(~A)'') = None"
    by (simp add: parser_defs)
  from wrapped_atom_or_negation_rejected [of "ascii ''(A & B)''"] w
  have "\<not> is_letter_or_negation (Conjunction (sentence_letter ''A'') (sentence_letter ''B''))"
    by blast
  with w n show ?thesis by blast
qed

section \<open>Layout: the main connective\<close>

lemma layout_no_main: "filter is_main_token (layout s False t) = []"
  by (induction s arbitrary: t) (auto simp: layout_binary_def)

lemma layout_main: "\<exists>tx. filter is_main_token (layout s True t) = [ValueToken tx s True]"
  by (cases s) (auto simp: layout_binary_def layout_no_main)

lemma map_throwing_filter_main:
  "map_throwing (evaluate_token a) ts = Inr vs \<Longrightarrow>
   filter isMain vs = ys \<Longrightarrow>
   map_throwing (evaluate_token a) (filter is_main_token ts) = Inr ys"
proof (induction ts arbitrary: vs ys)
  case Nil
  then show ?case by auto
next
  case (Cons t ts)
  then show ?case
    by (cases t) (auto split: sum.splits)
qed

lemma filter_main_value:
  "filter is_main_token (filter is_value_token ts) = filter is_main_token ts"
proof (induction ts)
  case Nil
  show ?case by simp
next
  case (Cons t ts)
  then show ?case by (cases t) auto
qed

lemma evaluateLayout_main:
  assumes "evaluateLayout (layoutFormula s) a = Inr vs"
  shows "\<exists>tx v. filter isMain vs = [\<lparr>token_text = tx, token_value = v, isMain = True\<rparr>]
           \<and> evaluate a s = Inr v"
proof -
  obtain t0 where m: "filter is_main_token (layout s True True) = [ValueToken t0 s True]"
    using layout_main by blast
  from assms have "map_throwing (evaluate_token a)
      (filter is_main_token (filter is_value_token (layout s True True))) =
      Inr (filter isMain vs)"
    by (intro map_throwing_filter_main) (auto simp: evaluateLayout_def layoutFormula_def)
  then have "map_throwing (evaluate_token a) [ValueToken t0 s True] = Inr (filter isMain vs)"
    unfolding filter_main_value m .
  then show ?thesis by (cases "evaluate a s") (auto dest: sym)
qed

lemma map_throwing_total:
  "(\<And>x. x \<in> set xs \<Longrightarrow> \<exists>y. f x = Inr y) \<Longrightarrow> \<exists>ys. map_throwing f xs = Inr ys"
proof (induction xs)
  case Nil
  show ?case by simp
next
  case (Cons x xs)
  then obtain y ys where "f x = Inr y" "map_throwing f xs = Inr ys"
    by (meson list.set_intros)
  then show ?case by simp
qed

lemma evaluateLayout_total: "\<exists>vs. evaluateLayout lay (\<lambda>l. Inr (f l)) = Inr vs"
  unfolding evaluateLayout_def
proof (rule map_throwing_total)
  fix x assume "x \<in> set (filter is_value_token (tokens lay))"
  show "\<exists>y. evaluate_token (\<lambda>l. Inr (f l)) x = Inr y"
    by (cases x) (simp_all add: evaluate_total)
qed

text \<open>
  C8. The tokens of \<open>layoutFormula s\<close> whose main flag is set are one value token, and
  its sub-formula is \<open>s\<close> itself. Whenever \<open>evaluateLayout\<close> returns, the entries with the
  main flag are one entry, whose value is that of \<open>evaluate\<close> on \<open>s\<close>; and it returns
  under every total assignment. For the parse of \<open>A -> B\<close> the tokens are the value
  token of \<open>A\<close>, the value token of the conditional (the arrow between two spaces) with
  the main flag, and the value token of \<open>B\<close>.
\<close>

theorem layout_one_main_token:
  "(\<exists>tx. filter is_main_token (tokens (layoutFormula s)) = [ValueToken tx s True])
   \<and> (\<forall>vs. evaluateLayout (layoutFormula s) a = Inr vs \<longrightarrow>
         (\<exists>tx v. filter isMain vs = [\<lparr>token_text = tx, token_value = v, isMain = True\<rparr>]
            \<and> evaluate a s = Inr v))
   \<and> (\<exists>vs. evaluateLayout (layoutFormula s) (\<lambda>l. Inr (f l)) = Inr vs)
   \<and> parse_sentence (ascii ''A -> B'') =
       Inr (Conditional (sentence_letter ''A'') (sentence_letter ''B''))
   \<and> tokens (layoutFormula (Conditional (sentence_letter ''A'') (sentence_letter ''B''))) =
       [ValueToken (ascii ''A'') (sentence_letter ''A'') False,
        ValueToken (ascii '' '' @ [u_imp] @ ascii '' '')
          (Conditional (sentence_letter ''A'') (sentence_letter ''B'')) True,
        ValueToken (ascii ''B'') (sentence_letter ''B'') False]"
proof -
  have 1: "\<exists>tx. filter is_main_token (tokens (layoutFormula s)) = [ValueToken tx s True]"
    using layout_main by (simp add: layoutFormula_def)
  have 2: "\<forall>vs. evaluateLayout (layoutFormula s) a = Inr vs \<longrightarrow>
         (\<exists>tx v. filter isMain vs = [\<lparr>token_text = tx, token_value = v, isMain = True\<rparr>]
            \<and> evaluate a s = Inr v)"
    using evaluateLayout_main by blast
  have 3: "\<exists>vs. evaluateLayout (layoutFormula s) (\<lambda>l. Inr (f l)) = Inr vs"
    by (rule evaluateLayout_total)
  have 4: "parse_sentence (ascii ''A -> B'') =
       Inr (Conditional (sentence_letter ''A'') (sentence_letter ''B''))"
    by (simp add: parser_defs)
  have 5: "tokens (layoutFormula (Conditional (sentence_letter ''A'') (sentence_letter ''B''))) =
       [ValueToken (ascii ''A'') (sentence_letter ''A'') False,
        ValueToken (ascii '' '' @ [u_imp] @ ascii '' '')
          (Conditional (sentence_letter ''A'') (sentence_letter ''B'')) True,
        ValueToken (ascii ''B'') (sentence_letter ''B'') False]"
    by (simp add: layoutFormula_def layout_binary_def letter_string_def ascii_def)
  from 1 2 3 4 5 show ?thesis by blast
qed

theorem layout_one_main_token_witness:
  "evaluateLayout (layoutFormula (Conditional (sentence_letter ''A'') (sentence_letter ''B'')))
      (\<lambda>l. Inr False) =
     Inr [\<lparr>token_text = ascii ''A'', token_value = False, isMain = False\<rparr>,
          \<lparr>token_text = ascii '' '' @ [u_imp] @ ascii '' '', token_value = True, isMain = True\<rparr>,
          \<lparr>token_text = ascii ''B'', token_value = False, isMain = False\<rparr>]
   \<and> evaluate (\<lambda>l. Inr False) (Conditional (sentence_letter ''A'') (sentence_letter ''B'')) =
       Inr True"
proof -
  let ?s = "Conditional (sentence_letter ''A'') (sentence_letter ''B'')"
  let ?a = "\<lambda>l::Letter. (Inr False :: error + bool)"
  have e: "evaluateLayout (layoutFormula ?s) ?a =
     Inr [\<lparr>token_text = ascii ''A'', token_value = False, isMain = False\<rparr>,
          \<lparr>token_text = ascii '' '' @ [u_imp] @ ascii '' '', token_value = True, isMain = True\<rparr>,
          \<lparr>token_text = ascii ''B'', token_value = False, isMain = False\<rparr>]"
    by (simp add: evaluateLayout_def layoutFormula_def layout_binary_def letter_string_def
        ascii_def)
  from layout_one_main_token [of ?s ?a "\<lambda>l. False"] e
  have "\<exists>tx v. filter isMain
          [\<lparr>token_text = ascii ''A'', token_value = False, isMain = False\<rparr>,
           \<lparr>token_text = ascii '' '' @ [u_imp] @ ascii '' '', token_value = True, isMain = True\<rparr>,
           \<lparr>token_text = ascii ''B'', token_value = False, isMain = False\<rparr>] =
          [\<lparr>token_text = tx, token_value = v, isMain = True\<rparr>] \<and> evaluate ?a ?s = Inr v"
    by blast
  then have "evaluate ?a ?s = Inr True" by simp
  with e show ?thesis by blast
qed

section \<open>Dependencies: the direct ones\<close>

lemma dependencies_are_operands:
  "getSubformulaDependencies s = filter (\<lambda>x. \<not> is_letter_or_value x) (operands s)"
  by (cases s) auto

lemmas dependency_defs = cellDependencies_def subformulaToCell_def layoutFormula_def
  layout_binary_def compact_key_def wrap_compact_def letter_string_def cell_key_def
  depCellKeys_def number_to_string.simps ascii_def u_defs

text \<open>
  C9. The direct dependencies of a node are its immediate operands that are neither a
  letter nor a constant, in order. For the parse of \<open>(A & B) v C\<close>, the cell of the outer
  disjunction (token 5 of formula 0) has one dependency, the cell of \<open>A & B\<close> (token 2),
  and that cell has none.
\<close>

theorem direct_dependencies_are_nonatomic_operands:
  "getSubformulaDependencies s = filter (\<lambda>x. \<not> is_letter_or_value x) (operands s)
   \<and> parse_sentence (ascii ''(A & B) v C'') =
       Inr (Disjunction (Conjunction (sentence_letter ''A'') (sentence_letter ''B''))
             (sentence_letter ''C''))
   \<and> tokens (layoutFormula (Disjunction (Conjunction (sentence_letter ''A'')
         (sentence_letter ''B'')) (sentence_letter ''C''))) =
       [TextToken (ascii ''(''),
        ValueToken (ascii ''A'') (sentence_letter ''A'') False,
        ValueToken (ascii ''&'') (Conjunction (sentence_letter ''A'') (sentence_letter ''B''))
          False,
        ValueToken (ascii ''B'') (sentence_letter ''B'') False,
        TextToken (ascii '')''),
        ValueToken [u_or] (Disjunction (Conjunction (sentence_letter ''A'')
          (sentence_letter ''B'')) (sentence_letter ''C'')) True,
        ValueToken (ascii ''C'') (sentence_letter ''C'') False]
   \<and> cellDependencies [layoutFormula (Disjunction (Conjunction (sentence_letter ''A'')
         (sentence_letter ''B'')) (sentence_letter ''C''))] (ascii ''0-5'') =
       Some [ascii ''0-2'']
   \<and> cellDependencies [layoutFormula (Disjunction (Conjunction (sentence_letter ''A'')
         (sentence_letter ''B'')) (sentence_letter ''C''))] (ascii ''0-2'') =
       Some []"
proof -
  let ?s = "Disjunction (Conjunction (sentence_letter ''A'') (sentence_letter ''B''))
              (sentence_letter ''C'')"
  have 1: "parse_sentence (ascii ''(A & B) v C'') = Inr ?s"
    by (simp add: parser_defs)
  have 2: "tokens (layoutFormula ?s) =
       [TextToken (ascii ''(''),
        ValueToken (ascii ''A'') (sentence_letter ''A'') False,
        ValueToken (ascii ''&'') (Conjunction (sentence_letter ''A'') (sentence_letter ''B''))
          False,
        ValueToken (ascii ''B'') (sentence_letter ''B'') False,
        TextToken (ascii '')''),
        ValueToken [u_or] ?s True,
        ValueToken (ascii ''C'') (sentence_letter ''C'') False]"
    by (simp add: dependency_defs)
  have 3: "cellDependencies [layoutFormula ?s] (ascii ''0-5'') = Some [ascii ''0-2'']"
    by (simp add: dependency_defs)
  have 4: "cellDependencies [layoutFormula ?s] (ascii ''0-2'') = Some []"
    by (simp add: dependency_defs)
  from 1 2 3 4 dependencies_are_operands show ?thesis by presburger
qed

section \<open>Decimal rendering and cell keys\<close>

lemma number_to_string_nonempty: "number_to_string n \<noteq> []"
  by (subst number_to_string.simps) simp

lemma number_to_string_digits: "c \<in> set (number_to_string n) \<Longrightarrow> 48 \<le> c \<and> c \<le> 57"
proof (induction n rule: number_to_string.induct)
  case (1 n)
  show ?case
  proof (cases "n < 10")
    case True
    with "1.prems" show ?thesis by (subst (asm) number_to_string.simps) simp
  next
    case False
    with "1.prems" have "c \<in> set (number_to_string (n div 10)) \<or> c = 48 + n mod 10"
      by (subst (asm) number_to_string.simps) auto
    then show ?thesis
    proof
      assume "c \<in> set (number_to_string (n div 10))"
      with "1.IH" False show ?thesis by simp
    next
      assume "c = 48 + n mod 10"
      moreover have "n mod 10 < 10" by simp
      ultimately show ?thesis by linarith
    qed
  qed
qed

lemma number_to_string_inj: "number_to_string a = number_to_string b \<Longrightarrow> a = b"
proof (induction a arbitrary: b rule: number_to_string.induct)
  case (1 a)
  show ?case
  proof (cases "a < 10")
    case a: True
    show ?thesis
    proof (cases "b < 10")
      case True
      with a "1.prems" show ?thesis
        by (simp add: number_to_string.simps[of a] number_to_string.simps[of b])
    next
      case False
      with a "1.prems" have "[48 + a] = number_to_string (b div 10) @ [48 + b mod 10]"
        by (simp add: number_to_string.simps[of a] number_to_string.simps[of b])
      then show ?thesis using number_to_string_nonempty[of "b div 10"] by simp
    qed
  next
    case a: False
    show ?thesis
    proof (cases "b < 10")
      case True
      with a "1.prems" have "number_to_string (a div 10) @ [48 + a mod 10] = [48 + b]"
        by (simp add: number_to_string.simps[of a] number_to_string.simps[of b])
      then show ?thesis using number_to_string_nonempty[of "a div 10"] by simp
    next
      case False
      with a "1.prems" have "number_to_string (a div 10) @ [48 + a mod 10] =
          number_to_string (b div 10) @ [48 + b mod 10]"
        by (simp add: number_to_string.simps[of a] number_to_string.simps[of b])
      then have "number_to_string (a div 10) = number_to_string (b div 10)" "a mod 10 = b mod 10"
        by simp_all
      with "1.IH"[OF a] have "a div 10 = b div 10" "a mod 10 = b mod 10" by auto
      then show ?thesis by (metis div_mult_mod_eq)
    qed
  qed
qed

lemma cell_key_inj:
  assumes "cell_key fi ti = cell_key fi' ti'"
  shows "fi = fi' \<and> ti = ti'"
proof -
  have n: "\<And>n. 45 \<notin> set (number_to_string n)"
    using number_to_string_digits by fastforce
  from assms have "number_to_string fi @ 45 # number_to_string ti =
      number_to_string fi' @ 45 # number_to_string ti'"
    by (simp add: cell_key_def ascii_def)
  then have "number_to_string fi = number_to_string fi' \<and> number_to_string ti = number_to_string ti'"
    using n by (simp add: append_Cons_eq_iff)
  then show ?thesis using number_to_string_inj by blast
qed

section \<open>Dependencies: the shared map\<close>

lemma forEach_tokens:
  "forEach (\<lambda>token ti m. case quasi_subformula token of None \<Rightarrow> m
                          | Some sub \<Rightarrow> m(K ti sub \<mapsto> V ti sub)) ts i m =
   m ++ map_of (rev (map (\<lambda>(c, sub). (K (tokenIdx c) sub, V (tokenIdx c) sub))
                      (quasi_tokens fi ts i)))"
proof (induction ts arbitrary: i m)
  case Nil
  show ?case by simp
next
  case (Cons t ts)
  show ?case
  proof (cases "quasi_subformula t")
    case None
    then show ?thesis by (simp add: Cons.IH)
  next
    case (Some sub)
    have "m(K i sub \<mapsto> V i sub) ++ map_of (rev (map (\<lambda>(c, sub). (K (tokenIdx c) sub, V (tokenIdx c) sub))
                      (quasi_tokens fi ts (Suc i)))) =
          m ++ map_of (rev (map (\<lambda>(c, sub). (K (tokenIdx c) sub, V (tokenIdx c) sub))
                      (quasi_tokens fi (t # ts) i)))"
      by (auto simp: Some map_add_def fun_eq_iff split: option.splits)
    moreover have "forEach (\<lambda>token ti m. case quasi_subformula token of None \<Rightarrow> m
                          | Some sub \<Rightarrow> m(K ti sub \<mapsto> V ti sub)) (t # ts) i m =
        forEach (\<lambda>token ti m. case quasi_subformula token of None \<Rightarrow> m
                          | Some sub \<Rightarrow> m(K ti sub \<mapsto> V ti sub)) ts (Suc i) (m(K i sub \<mapsto> V i sub))"
      by (simp add: Some)
    ultimately show ?thesis by (simp only: Cons.IH)
  qed
qed

lemma cell_eq: "(c = \<lparr>formulaIdx = fi, tokenIdx = ti\<rparr>) = (formulaIdx c = fi \<and> tokenIdx c = ti)"
  by (cases c) auto

lemma cell_eq': "(\<lparr>formulaIdx = fi, tokenIdx = ti\<rparr> = c) = (formulaIdx c = fi \<and> tokenIdx c = ti)"
  by (cases c) auto

lemma quasi_tokens_fi: "(c, sub) \<in> set (quasi_tokens fi ts i) \<Longrightarrow> formulaIdx c = fi"
  by (induction ts arbitrary: i) (auto split: option.splits)

lemma forEach_layouts:
  "forEach (\<lambda>lay fi. forEach (\<lambda>token ti m. case quasi_subformula token of None \<Rightarrow> m
                          | Some sub \<Rightarrow> m(K fi ti sub \<mapsto> V fi ti sub)) (tokens lay) 0) lays i m =
   m ++ map_of (rev (map (\<lambda>(c, sub). (K (formulaIdx c) (tokenIdx c) sub, V (formulaIdx c) (tokenIdx c) sub))
                      (quasi_cells lays i)))"
proof (induction lays arbitrary: i m)
  case Nil
  show ?case by simp
next
  case (Cons lay lays)
  have eq: "map (\<lambda>(c, sub). (K i (tokenIdx c) sub, V i (tokenIdx c) sub)) (quasi_tokens i (tokens lay) 0)
      = map (\<lambda>(c, sub). (K (formulaIdx c) (tokenIdx c) sub, V (formulaIdx c) (tokenIdx c) sub))
          (quasi_tokens i (tokens lay) 0)"
    by (rule map_cong) (auto dest: quasi_tokens_fi)
  show ?case
    by (simp add: Cons.IH forEach_tokens[where fi = i and K = "K i" and V = "V i"] eq)
qed

lemma quasi_tokens_iff:
  "(c, sub) \<in> set (quasi_tokens fi ts i) \<longleftrightarrow>
     formulaIdx c = fi \<and> i \<le> tokenIdx c \<and> tokenIdx c - i < length ts \<and>
     quasi_subformula (ts ! (tokenIdx c - i)) = Some sub"
proof (induction ts arbitrary: i)
  case Nil
  show ?case by simp
next
  case (Cons t ts)
  show ?case
  proof (cases "tokenIdx c = i")
    case True
    then show ?thesis
      by (auto simp: Cons.IH cell_eq cell_eq' split: option.splits)
  next
    case False
    then have "tokenIdx c - i = Suc (tokenIdx c - Suc i) \<or> tokenIdx c < i"
      by linarith
    then show ?thesis using False
      by (auto simp: Cons.IH cell_eq cell_eq' split: option.splits)
  qed
qed

lemma quasi_cells_iff:
  "(c, sub) \<in> set (quasi_cells lays i) \<longleftrightarrow>
     i \<le> formulaIdx c \<and> formulaIdx c - i < length lays \<and>
     tokenIdx c < length (tokens (lays ! (formulaIdx c - i))) \<and>
     quasi_subformula (tokens (lays ! (formulaIdx c - i)) ! tokenIdx c) = Some sub"
proof (induction lays arbitrary: i)
  case Nil
  show ?case by simp
next
  case (Cons lay lays)
  show ?case
  proof (cases "formulaIdx c = i")
    case True
    then show ?thesis by (auto simp: Cons.IH quasi_tokens_iff)
  next
    case False
    then have "formulaIdx c - i = Suc (formulaIdx c - Suc i) \<or> formulaIdx c < i"
      by linarith
    then show ?thesis using False
      by (auto simp: Cons.IH quasi_tokens_iff)
  qed
qed

lemma quasi_tokens_sorted: "sorted_wrt cell_before (map fst (quasi_tokens fi ts i))"
proof (induction ts arbitrary: i)
  case Nil
  show ?case by simp
next
  case (Cons t ts)
  have "\<And>c sub. (c, sub) \<in> set (quasi_tokens fi ts (Suc i)) \<Longrightarrow>
          cell_before \<lparr>formulaIdx = fi, tokenIdx = i\<rparr> c"
    by (auto simp: quasi_tokens_iff cell_before_def)
  then show ?case
    by (auto simp: Cons.IH sorted_wrt_append split: option.splits)
qed

lemma quasi_cells_sorted: "sorted_wrt cell_before (map fst (quasi_cells lays i))"
proof (induction lays arbitrary: i)
  case Nil
  show ?case by simp
next
  case (Cons lay lays)
  have "\<And>c sub c' sub'. (c, sub) \<in> set (quasi_tokens i (tokens lay) 0) \<Longrightarrow>
          (c', sub') \<in> set (quasi_cells lays (Suc i)) \<Longrightarrow> cell_before c c'"
    by (auto simp: quasi_tokens_iff quasi_cells_iff cell_before_def)
  then show ?case
    by (auto simp: Cons.IH sorted_wrt_append quasi_tokens_sorted)
qed

lemma sorted_wrt_distinct:
  "sorted_wrt R xs \<Longrightarrow> (\<And>x. \<not> R x x) \<Longrightarrow> distinct xs"
  by (induction xs) auto

lemma map_of_rev_latest:
  assumes "sorted_wrt R (map snd es)" and "map_of (rev es) k = Some v" and "(k, v') \<in> set es"
  shows "v' = v \<or> R v' v"
  using assms
proof (induction es rule: rev_induct)
  case Nil
  then show ?case by simp
next
  case (snoc e es)
  obtain k0 v0 where e: "e = (k0, v0)" by (cases e)
  from snoc.prems(1) have s: "sorted_wrt R (map snd es)" and
    b: "\<And>x. x \<in> set es \<Longrightarrow> R (snd x) v0"
    by (auto simp: sorted_wrt_append e)
  show ?case
  proof (cases "k0 = k")
    case True
    with snoc.prems(2) e have "v = v0" by simp
    with snoc.prems(3) e b show ?thesis by auto
  next
    case False
    with snoc.prems e have "map_of (rev es) k = Some v" "(k, v') \<in> set es" by auto
    with snoc.IH s show ?thesis by blast
  qed
qed

lemma subformulaToCell_entries:
  "subformulaToCell layouts =
     map_of (rev (map (\<lambda>(c, sub). (compact_key sub, c)) (quasi_cells layouts 0)))"
proof -
  have "subformulaToCell layouts =
     Map.empty ++ map_of (rev (map (\<lambda>(c, sub). (compact_key sub, \<lparr>formulaIdx = formulaIdx c, tokenIdx = tokenIdx c\<rparr>)) (quasi_cells layouts 0)))"
    unfolding subformulaToCell_def
    by (rule forEach_layouts[where K = "\<lambda>fi ti sub. compact_key sub"
          and V = "\<lambda>fi ti sub. \<lparr>formulaIdx = fi, tokenIdx = ti\<rparr>"])
  moreover have "\<And>c::Cell. \<lparr>formulaIdx = formulaIdx c, tokenIdx = tokenIdx c\<rparr> = c"
    by simp
  ultimately show ?thesis by simp
qed

lemma occurs_iff: "occurs layouts key c \<longleftrightarrow> (\<exists>sub. (c, sub) \<in> set (quasi_cells layouts 0) \<and> compact_key sub = key)"
  by (auto simp: occurs_def quasi_cells_iff)

lemma subformulaToCell_None:
  "subformulaToCell layouts key = None \<longleftrightarrow> \<not> (\<exists>c. occurs layouts key c)"
  by (force simp: subformulaToCell_entries map_of_eq_None_iff occurs_iff)

lemma subformulaToCell_Some:
  assumes "subformulaToCell layouts key = Some c"
  shows "occurs layouts key c \<and> (\<forall>c'. occurs layouts key c' \<longrightarrow> c' = c \<or> cell_before c' c)"
proof -
  let ?es = "map (\<lambda>(c, sub). (compact_key sub, c)) (quasi_cells layouts 0)"
  from assms have m: "map_of (rev ?es) key = Some c"
    by (simp add: subformulaToCell_entries)
  then have "(key, c) \<in> set ?es"
    using map_of_SomeD by fastforce
  then have 1: "occurs layouts key c" by (auto simp: occurs_iff)
  have s: "sorted_wrt cell_before (map snd ?es)"
    using quasi_cells_sorted[of layouts 0] by (simp add: comp_def case_prod_unfold)
  have 2: "c' = c \<or> cell_before c' c" if "occurs layouts key c'" for c'
  proof -
    from that have "(key, c') \<in> set ?es" by (force simp: occurs_iff)
    with map_of_rev_latest[OF s m] show ?thesis .
  qed
  from 1 2 show ?thesis by blast
qed

lemma cellDependencies_cell:
  assumes "fi < length layouts" and "ti < length (tokens (layouts ! fi))"
    and "quasi_subformula (tokens (layouts ! fi) ! ti) = Some sub"
  shows "cellDependencies layouts (cell_key fi ti) =
           Some (depCellKeys (subformulaToCell layouts) sub)"
proof -
  let ?cells = "subformulaToCell layouts"
  let ?es = "map (\<lambda>(c, sub). (cell_key (formulaIdx c) (tokenIdx c), depCellKeys ?cells sub))
               (quasi_cells layouts 0)"
  have eq: "cellDependencies layouts = Map.empty ++ map_of (rev ?es)"
    unfolding cellDependencies_def Let_def
    by (rule forEach_layouts[where K = "\<lambda>fi ti sub. cell_key fi ti"
          and V = "\<lambda>fi ti sub. depCellKeys ?cells sub"])
  have "distinct (map fst (quasi_cells layouts 0))"
    using quasi_cells_sorted[of layouts 0] by (rule sorted_wrt_distinct) (simp add: cell_before_def)
  moreover have "inj_on (\<lambda>c. cell_key (formulaIdx c) (tokenIdx c)) (set (map fst (quasi_cells layouts 0)))"
    by (rule inj_onI) (auto dest!: cell_key_inj)
  ultimately have "distinct (map (\<lambda>c. cell_key (formulaIdx c) (tokenIdx c)) (map fst (quasi_cells layouts 0)))"
    by (simp only: distinct_map)
  then have d: "distinct (map fst (rev ?es))"
    by (simp add: comp_def case_prod_unfold rev_map[symmetric])
  from assms have "(\<lparr>formulaIdx = fi, tokenIdx = ti\<rparr>, sub) \<in> set (quasi_cells layouts 0)"
    by (simp add: quasi_cells_iff)
  then have "(cell_key fi ti, depCellKeys ?cells sub) \<in> set (rev ?es)"
    by force
  from map_of_is_SomeI[OF d this] show ?thesis by (simp add: eq)
qed


text \<open>
  C10. One map, keyed by the compact string, serves the whole batch, and a later entry
  replaces an earlier one. So a key has no cell exactly when no value token with a
  non-atomic sub-formula renders to it, and otherwise its cell is an occurrence of the
  key that every other occurrence precedes in the order of the visit: the last one. The
  dependencies of a cell are the cells that the map gives for the compact strings of its
  direct dependencies. In the batch of \<open>~(A & B)\<close> and \<open>(A & B) v C\<close> the negation of
  formula 0 depends on token 2 of formula 1, not on token 3 of its own formula; in
  \<open>(A & B) v (A & B)\<close> both dependencies of the disjunction are token 8, the second
  occurrence.
\<close>

theorem dependency_resolves_to_last_occurrence:
  "(subformulaToCell layouts key = None \<longleftrightarrow> \<not> (\<exists>c. occurs layouts key c))
   \<and> (\<forall>c. subformulaToCell layouts key = Some c \<longrightarrow>
          occurs layouts key c
          \<and> (\<forall>c'. occurs layouts key c' \<longrightarrow> c' = c \<or> cell_before c' c))
   \<and> (\<forall>fi ti sub. fi < length layouts \<and> ti < length (tokens (layouts ! fi))
          \<and> quasi_subformula (tokens (layouts ! fi) ! ti) = Some sub \<longrightarrow>
          cellDependencies layouts (cell_key fi ti) =
            Some (concat (map (\<lambda>dep. case subformulaToCell layouts (compact_key dep) of
                                   None \<Rightarrow> []
                                 | Some depCell \<Rightarrow>
                                     [cell_key (formulaIdx depCell) (tokenIdx depCell)])
                           (getSubformulaDependencies sub))))
   \<and> cellDependencies
        [layoutFormula (Negation (Conjunction (sentence_letter ''A'') (sentence_letter ''B''))),
         layoutFormula (Disjunction (Conjunction (sentence_letter ''A'') (sentence_letter ''B''))
           (sentence_letter ''C''))] (ascii ''0-0'') = Some [ascii ''1-2'']
   \<and> cellDependencies
        [layoutFormula (Disjunction (Conjunction (sentence_letter ''A'') (sentence_letter ''B''))
           (Conjunction (sentence_letter ''A'') (sentence_letter ''B'')))] (ascii ''0-5'') =
        Some [ascii ''0-8'', ascii ''0-8'']"
proof -
  have 1: "subformulaToCell layouts key = None \<longleftrightarrow> \<not> (\<exists>c. occurs layouts key c)"
    by (rule subformulaToCell_None)
  have 2: "\<forall>c. subformulaToCell layouts key = Some c \<longrightarrow>
          occurs layouts key c
          \<and> (\<forall>c'. occurs layouts key c' \<longrightarrow> c' = c \<or> cell_before c' c)"
    using subformulaToCell_Some by blast
  have 3: "\<forall>fi ti sub. fi < length layouts \<and> ti < length (tokens (layouts ! fi))
          \<and> quasi_subformula (tokens (layouts ! fi) ! ti) = Some sub \<longrightarrow>
          cellDependencies layouts (cell_key fi ti) =
            Some (concat (map (\<lambda>dep. case subformulaToCell layouts (compact_key dep) of
                                   None \<Rightarrow> []
                                 | Some depCell \<Rightarrow>
                                     [cell_key (formulaIdx depCell) (tokenIdx depCell)])
                           (getSubformulaDependencies sub)))"
    using cellDependencies_cell by (simp add: depCellKeys_def)
  have 4: "cellDependencies
        [layoutFormula (Negation (Conjunction (sentence_letter ''A'') (sentence_letter ''B''))),
         layoutFormula (Disjunction (Conjunction (sentence_letter ''A'') (sentence_letter ''B''))
           (sentence_letter ''C''))] (ascii ''0-0'') = Some [ascii ''1-2'']"
    by (simp add: dependency_defs)
  have 5: "cellDependencies
        [layoutFormula (Disjunction (Conjunction (sentence_letter ''A'') (sentence_letter ''B''))
           (Conjunction (sentence_letter ''A'') (sentence_letter ''B'')))] (ascii ''0-5'') =
        Some [ascii ''0-8'', ascii ''0-8'']"
    by (simp add: dependency_defs)
  from 1 2 3 4 5 show ?thesis by blast
qed

theorem dependency_resolves_to_last_occurrence_witness:
  "subformulaToCell
      [layoutFormula (Negation (Conjunction (sentence_letter ''A'') (sentence_letter ''B''))),
       layoutFormula (Disjunction (Conjunction (sentence_letter ''A'') (sentence_letter ''B''))
         (sentence_letter ''C''))] (ascii ''A&B'') = Some \<lparr>formulaIdx = 1, tokenIdx = 2\<rparr>
   \<and> occurs
      [layoutFormula (Negation (Conjunction (sentence_letter ''A'') (sentence_letter ''B''))),
       layoutFormula (Disjunction (Conjunction (sentence_letter ''A'') (sentence_letter ''B''))
         (sentence_letter ''C''))] (ascii ''A&B'') \<lparr>formulaIdx = 0, tokenIdx = 3\<rparr>
   \<and> occurs
      [layoutFormula (Negation (Conjunction (sentence_letter ''A'') (sentence_letter ''B''))),
       layoutFormula (Disjunction (Conjunction (sentence_letter ''A'') (sentence_letter ''B''))
         (sentence_letter ''C''))] (ascii ''A&B'') \<lparr>formulaIdx = 1, tokenIdx = 2\<rparr>
   \<and> cell_before \<lparr>formulaIdx = 0, tokenIdx = 3\<rparr> \<lparr>formulaIdx = 1, tokenIdx = 2\<rparr>"
proof -
  let ?L = "[layoutFormula (Negation (Conjunction (sentence_letter ''A'') (sentence_letter ''B''))),
       layoutFormula (Disjunction (Conjunction (sentence_letter ''A'') (sentence_letter ''B''))
         (sentence_letter ''C''))]"
  have s: "subformulaToCell ?L (ascii ''A&B'') = Some \<lparr>formulaIdx = 1, tokenIdx = 2\<rparr>"
    by (simp add: dependency_defs)
  have o: "occurs ?L (ascii ''A&B'') \<lparr>formulaIdx = 0, tokenIdx = 3\<rparr>"
    by (simp add: occurs_def dependency_defs)
  from dependency_resolves_to_last_occurrence [of ?L "ascii ''A&B''"] s
  have a: "occurs ?L (ascii ''A&B'') \<lparr>formulaIdx = 1, tokenIdx = 2\<rparr>"
    and b: "\<forall>c'. occurs ?L (ascii ''A&B'') c' \<longrightarrow>
              c' = \<lparr>formulaIdx = 1, tokenIdx = 2\<rparr>
              \<or> cell_before c' \<lparr>formulaIdx = 1, tokenIdx = 2\<rparr>"
    by blast+
  from b o have "cell_before \<lparr>formulaIdx = 0, tokenIdx = 3\<rparr> \<lparr>formulaIdx = 1, tokenIdx = 2\<rparr>"
    by fastforce
  with s o a show ?thesis by blast
qed


section \<open>Truth tables: properties\<close>

lemma length_bits [simp]: "length (bits n k) = n"
  by (induction n arbitrary: k) auto










lemma letter_eqI: "letter_id a = letter_id b \<Longrightarrow> letter_index a = letter_index b \<Longrightarrow> a = b"
  by (cases a; cases b) simp






lemma set_insert_by [simp]: "set (insert_by cmp x ys) = insert x (set ys)"
  by (induction ys) auto

lemma set_sort_by [simp]: "set (sort_by cmp xs) = set xs"
  by (induction xs) (auto simp: sort_by_def)

lemma length_insert_by [simp]: "length (insert_by cmp x ys) = Suc (length ys)"
  by (induction ys) auto

lemma length_sort_by [simp]: "length (sort_by cmp xs) = length xs"
  by (induction xs) (auto simp: sort_by_def)





























section \<open>The compact rendering\<close>

lemma digit_prefix_unique:
  assumes "d1 @ r1 = d2 @ r2" "\<forall>c\<in>set d1. is_digit c" "\<forall>c\<in>set d2. is_digit c"
    "no_digit_ahead r1" "no_digit_ahead r2"
  shows "d1 = d2 \<and> r1 = r2"
  using assms
proof (induction d1 arbitrary: d2)
  case Nil
  then show ?case by (cases d2) (auto simp: no_digit_ahead_def)
next
  case (Cons x d1)
  show ?case
  proof (cases d2)
    case Nil
    with Cons.prems show ?thesis by (auto simp: no_digit_ahead_def)
  next
    case (Cons y d2')
    with Cons.prems Cons.IH[of d2'] show ?thesis by auto
  qed
qed

lemma binary_parts_compact:
  "binary_parts s = Some (op, l, r) \<Longrightarrow>
   sentence_to_string_compact s isTop =
     wrap_compact (sentence_to_string_compact l False) (sentence_to_string_compact r False) [op] isTop"
  by (cases s) (auto simp: ascii_def)

lemma binary_parts_inj:
  "binary_parts s1 = Some x \<Longrightarrow> binary_parts s2 = Some x \<Longrightarrow> s1 = s2"
  by (cases s1; cases s2) (auto simp: u_defs)

lemma binary_parts_op:
  "binary_parts s = Some (op, l, r) \<Longrightarrow> \<not> is_digit op"
  by (cases s) (auto simp: u_defs is_digit_def)

lemma binary_parts_plain:
  "binary_parts s = Some (op, l, r) \<Longrightarrow> plain s \<Longrightarrow> plain l \<and> plain r"
  by (cases s) auto

lemma letter_string_digits:
  "valid_letter l \<Longrightarrow> \<exists>c d. letter_string l = c # d \<and> 65 \<le> c \<and> c \<le> 90 \<and> letter_id l = [c]
      \<and> (\<forall>x\<in>set d. is_digit x)
      \<and> d = (if letter_index l > 0 then number_to_string (letter_index l) else [])"
  using number_to_string_digits by (auto simp: valid_letter_def letter_string_def is_digit_def)

lemma compact_first:
  "plain s \<Longrightarrow> \<exists>c rest. sentence_to_string_compact s False = c # rest \<and>
      (case s of Letter l \<Rightarrow> 65 \<le> c \<and> c \<le> 90 | Negation x \<Rightarrow> c = 126 | _ \<Rightarrow> c = 40)"
  by (cases s) (auto simp: wrap_compact_def ascii_def dest: letter_string_digits)

lemma compact_paren_binary:
  assumes "plain s" "sentence_to_string_compact s False = 40 # rest"
  shows "\<exists>op l r. binary_parts s = Some (op, l, r)"
proof (cases s)
  case (Letter l)
  with assms letter_string_digits[of l] show ?thesis by auto
qed (use assms in \<open>auto simp: ascii_def\<close>)

lemma compact_binary_case:
  assumes bp: "binary_parts s1 = Some (op, l, r)"
    and IHl: "\<And>s2 r1 r2. plain s2 \<Longrightarrow>
        sentence_to_string_compact l False @ r1 = sentence_to_string_compact s2 False @ r2 \<Longrightarrow>
        no_digit_ahead r1 \<Longrightarrow> no_digit_ahead r2 \<Longrightarrow> l = s2 \<and> r1 = r2"
    and IHr: "\<And>s2 r1 r2. plain s2 \<Longrightarrow>
        sentence_to_string_compact r False @ r1 = sentence_to_string_compact s2 False @ r2 \<Longrightarrow>
        no_digit_ahead r1 \<Longrightarrow> no_digit_ahead r2 \<Longrightarrow> r = s2 \<and> r1 = r2"
    and p1: "plain s1" and p2: "plain s2"
    and eq: "sentence_to_string_compact s1 False @ q1 = sentence_to_string_compact s2 False @ q2"
  shows "s1 = s2 \<and> q1 = q2"
proof -
  let ?c = "\<lambda>s. sentence_to_string_compact s False"
  have c1: "?c s1 = 40 # ?c l @ op # ?c r @ [41]"
    using binary_parts_compact[OF bp, of False] by (simp add: wrap_compact_def ascii_def)
  with eq obtain rest where "?c s2 = 40 # rest"
    using compact_first[OF p2] by (cases "?c s2") auto
  from compact_paren_binary[OF p2 this] obtain op2 l2 r2 where
    bp2: "binary_parts s2 = Some (op2, l2, r2)" by blast
  have c2: "?c s2 = 40 # ?c l2 @ op2 # ?c r2 @ [41]"
    using binary_parts_compact[OF bp2, of False] by (simp add: wrap_compact_def ascii_def)
  from binary_parts_plain[OF bp2 p2] have pl2: "plain l2" "plain r2" by auto
  from eq c1 c2 have e: "?c l @ (op # ?c r @ 41 # q1) = ?c l2 @ (op2 # ?c r2 @ 41 # q2)"
    by simp
  have "no_digit_ahead (op # ?c r @ 41 # q1)" "no_digit_ahead (op2 # ?c r2 @ 41 # q2)"
    using binary_parts_op[OF bp] binary_parts_op[OF bp2] by (simp_all add: no_digit_ahead_def)
  from IHl[OF pl2(1) e this] have l: "l = l2" and e2: "op # ?c r @ 41 # q1 = op2 # ?c r2 @ 41 # q2"
    by auto
  then have o: "op = op2" and e3: "?c r @ (41 # q1) = ?c r2 @ (41 # q2)" by auto
  have "no_digit_ahead (41 # q1)" "no_digit_ahead (41 # q2)"
    by (simp_all add: no_digit_ahead_def is_digit_def)
  from IHr[OF pl2(2) e3 this] have "r = r2" "q1 = q2" by auto
  with l o bp bp2 show ?thesis using binary_parts_inj by auto
qed

lemma compact_letter_case:
  assumes v1: "valid_letter l1" and p2: "plain s2"
    and eq: "letter_string l1 @ r1 = sentence_to_string_compact s2 False @ r2"
    and n1: "no_digit_ahead r1" and n2: "no_digit_ahead r2"
  shows "Letter l1 = s2 \<and> r1 = r2"
proof -
  from letter_string_digits[OF v1] obtain c1 d1 where
    l1: "letter_string l1 = c1 # d1" "65 \<le> c1" "c1 \<le> 90" "letter_id l1 = [c1]"
       "\<forall>x\<in>set d1. is_digit x"
       "d1 = (if letter_index l1 > 0 then number_to_string (letter_index l1) else [])"
    by blast
  show ?thesis
  proof (cases s2)
    case (Letter l2)
    with p2 have v2: "valid_letter l2" by simp
    from letter_string_digits[OF v2] obtain c2 d2 where
      l2: "letter_string l2 = c2 # d2" "letter_id l2 = [c2]"
       "\<forall>x\<in>set d2. is_digit x"
       "d2 = (if letter_index l2 > 0 then number_to_string (letter_index l2) else [])"
      by blast
    from eq Letter l1(1) l2(1) have c: "c1 = c2" and "d1 @ r1 = d2 @ r2" by auto
    from digit_prefix_unique[OF this(2) l1(5) l2(3) n1 n2] have d: "d1 = d2" and r: "r1 = r2"
      by auto
    from d l1(6) l2(4) have "letter_index l1 = letter_index l2"
      using number_to_string_nonempty[of "letter_index l1"]
        number_to_string_nonempty[of "letter_index l2"] number_to_string_inj
      by (auto split: if_splits)
    with c l1(4) l2(2) have "l1 = l2" by (intro letter_eqI) auto
    with r Letter show ?thesis by simp
  next
    case (Value v)
    with p2 show ?thesis by simp
  next
    case (Negation x)
    with eq l1 show ?thesis by (auto simp: ascii_def)
  qed (use eq l1 in \<open>auto simp: wrap_compact_def ascii_def\<close>)
qed

lemma compact_prefix_unique:
  "plain s1 \<Longrightarrow> plain s2 \<Longrightarrow>
   sentence_to_string_compact s1 False @ r1 = sentence_to_string_compact s2 False @ r2 \<Longrightarrow>
   no_digit_ahead r1 \<Longrightarrow> no_digit_ahead r2 \<Longrightarrow> s1 = s2 \<and> r1 = r2"
proof (induction s1 arbitrary: s2 r1 r2)
  case (Value x)
  then show ?case by simp
next
  case (Letter l1)
  then show ?case using compact_letter_case[where ?l1.0 = l1 and ?s2.0 = s2 and ?r1.0 = r1 and ?r2.0 = r2] by simp
next
  case (Negation x1)
  show ?case
  proof (cases s2)
    case (Letter l2)
    with Negation.prems letter_string_digits[of l2] show ?thesis by (auto simp: ascii_def)
  next
    case (Negation x2)
    with Negation.prems Negation.IH[of x2 r1 r2] show ?thesis by (simp add: ascii_def)
  qed (use Negation.prems in \<open>auto simp: wrap_compact_def ascii_def\<close>)
next
  case (Disjunction l r)
  have "binary_parts (Disjunction l r) = Some (u_or, l, r)" by simp
  moreover from Disjunction.prems(1) have pl: "plain l" "plain r" by simp_all
  ultimately show ?case
    using compact_binary_case[OF _ Disjunction.IH(1)[OF pl(1)] Disjunction.IH(2)[OF pl(2)] Disjunction.prems(1,2,3)]
    by blast
next
  case (Conjunction l r)
  have "binary_parts (Conjunction l r) = Some (38, l, r)" by simp
  moreover from Conjunction.prems(1) have pl: "plain l" "plain r" by simp_all
  ultimately show ?case
    using compact_binary_case[OF _ Conjunction.IH(1)[OF pl(1)] Conjunction.IH(2)[OF pl(2)] Conjunction.prems(1,2,3)]
    by blast
next
  case (Conditional l r)
  have "binary_parts (Conditional l r) = Some (u_imp, l, r)" by simp
  moreover from Conditional.prems(1) have pl: "plain l" "plain r" by simp_all
  ultimately show ?case
    using compact_binary_case[OF _ Conditional.IH(1)[OF pl(1)] Conditional.IH(2)[OF pl(2)] Conditional.prems(1,2,3)]
    by blast
next
  case (Biconditional l r)
  have "binary_parts (Biconditional l r) = Some (u_iff, l, r)" by simp
  moreover from Biconditional.prems(1) have pl: "plain l" "plain r" by simp_all
  ultimately show ?case
    using compact_binary_case[OF _ Biconditional.IH(1)[OF pl(1)] Biconditional.IH(2)[OF pl(2)] Biconditional.prems(1,2,3)]
    by blast
next
  case (Xor l r)
  have "binary_parts (Xor l r) = Some (u_xor, l, r)" by simp
  moreover from Xor.prems(1) have pl: "plain l" "plain r" by simp_all
  ultimately show ?case
    using compact_binary_case[OF _ Xor.IH(1)[OF pl(1)] Xor.IH(2)[OF pl(2)] Xor.prems(1,2,3)]
    by blast
next
  case (Nand l r)
  have "binary_parts (Nand l r) = Some (124, l, r)" by simp
  moreover from Nand.prems(1) have pl: "plain l" "plain r" by simp_all
  ultimately show ?case
    using compact_binary_case[OF _ Nand.IH(1)[OF pl(1)] Nand.IH(2)[OF pl(2)] Nand.prems(1,2,3)]
    by blast
qed

lemma compact_top_nonbinary:
  "binary_parts s = None \<Longrightarrow> sentence_to_string_compact s True = sentence_to_string_compact s False"
  by (cases s) auto

lemma compact_key_inj:
  assumes p1: "plain s1" and p2: "plain s2" and eq: "compact_key s1 = compact_key s2"
  shows "s1 = s2"
proof -
  let ?c = "\<lambda>s. sentence_to_string_compact s False"
  have nil: "no_digit_ahead []" by (simp add: no_digit_ahead_def)
  show ?thesis
  proof (cases "binary_parts s1")
    case None
    note n1 = this
    show ?thesis
    proof (cases "binary_parts s2")
      case None
      with n1 eq have "?c s1 @ [] = ?c s2 @ []"
        by (simp add: compact_key_def compact_top_nonbinary)
      from compact_prefix_unique[OF p1 p2 this nil nil] show ?thesis by simp
    next
      case (Some x)
      obtain op l r where x: "x = (op, l, r)" by (cases x)
      with Some have b: "binary_parts s2 = Some (op, l, r)" by simp
      with n1 eq have e: "?c s1 @ [] = ?c l @ (op # ?c r)"
        by (simp add: compact_key_def compact_top_nonbinary binary_parts_compact wrap_compact_def)
      have "no_digit_ahead (op # ?c r)"
        using binary_parts_op[OF b] by (simp add: no_digit_ahead_def)
      from compact_prefix_unique[OF p1 _ e nil this] binary_parts_plain[OF b p2]
      show ?thesis by simp
    qed
  next
    case (Some x)
    obtain op l r where "x = (op, l, r)" by (cases x)
    with Some have b1: "binary_parts s1 = Some (op, l, r)" by simp
    from binary_parts_plain[OF b1 p1] have pl: "plain l" "plain r" by auto
    have nd1: "no_digit_ahead (op # ?c r)"
      using binary_parts_op[OF b1] by (simp add: no_digit_ahead_def)
    show ?thesis
    proof (cases "binary_parts s2")
      case None
      with b1 eq have e: "?c s2 @ [] = ?c l @ (op # ?c r)"
        by (simp add: compact_key_def compact_top_nonbinary binary_parts_compact wrap_compact_def)
      from compact_prefix_unique[OF p2 pl(1) e nil nd1] show ?thesis by simp
    next
      case (Some y)
      obtain op2 l2 r2 where "y = (op2, l2, r2)" by (cases y)
      with Some have b2: "binary_parts s2 = Some (op2, l2, r2)" by simp
      from binary_parts_plain[OF b2 p2] have pl2: "plain l2" "plain r2" by auto
      have nd2: "no_digit_ahead (op2 # ?c r2)"
        using binary_parts_op[OF b2] by (simp add: no_digit_ahead_def)
      from eq b1 b2 have e: "?c l @ (op # ?c r) = ?c l2 @ (op2 # ?c r2)"
        by (simp add: compact_key_def binary_parts_compact wrap_compact_def)
      from compact_prefix_unique[OF pl(1) pl2(1) e nd1 nd2]
      have l: "l = l2" and o: "op = op2" and "?c r @ [] = ?c r2 @ []" by auto
      from compact_prefix_unique[OF pl(2) pl2(2) this(3) nil nil] have "r = r2" by simp
      with l o b1 b2 show ?thesis using binary_parts_inj by auto
    qed
  qed
qed

text \<open>
  C2 (as the code has it). On sentences without constants whose letters have an id of
  one upper-case letter, the compact rendering at top level is collision-free and a
  function of structure: two such sentences render to the same string exactly when they
  are structurally equal.
\<close>

theorem compact_rendering_injective:
  "plain s1 \<Longrightarrow> plain s2 \<Longrightarrow> (compact_key s1 = compact_key s2 \<longleftrightarrow> s1 = s2)"
  using compact_key_inj by blast

theorem compact_rendering_injective_witness:
  "plain (Conjunction (Letter (MkLetter (ascii ''A'') 12)) (Letter (MkLetter (ascii ''B'') 0)))
   \<and> plain (Conjunction (Letter (MkLetter (ascii ''A'') 1)) (Letter (MkLetter (ascii ''B'') 0)))
   \<and> compact_key (Conjunction (Letter (MkLetter (ascii ''A'') 12)) (Letter (MkLetter (ascii ''B'') 0)))
       \<noteq> compact_key (Conjunction (Letter (MkLetter (ascii ''A'') 1)) (Letter (MkLetter (ascii ''B'') 0)))
   \<and> compact_key (Conjunction (Letter (MkLetter (ascii ''A'') 12)) (Letter (MkLetter (ascii ''B'') 0)))
       = ascii ''A12&B''"
proof -
  let ?x = "Conjunction (Letter (MkLetter (ascii ''A'') 12)) (Letter (MkLetter (ascii ''B'') 0))"
  let ?y = "Conjunction (Letter (MkLetter (ascii ''A'') 1)) (Letter (MkLetter (ascii ''B'') 0))"
  have p: "plain ?x" "plain ?y" by (simp_all add: valid_letter_def ascii_def)
  have n: "?x \<noteq> ?y" by simp
  have k: "compact_key ?x = ascii ''A12&B''"
    by (simp add: compact_key_def wrap_compact_def letter_string_def number_to_string.simps ascii_def)
  from compact_rendering_injective[OF p] n have "compact_key ?x \<noteq> compact_key ?y" by blast
  with p k show ?thesis by blast
qed

text \<open>
  C2 as stated fails: the constant true and the letter \<open>T\<close> both render as \<open>T\<close>.
\<close>

theorem compact_rendering_collision_counterexample:
  "\<not> (\<forall>s1 s2. compact_key s1 = compact_key s2 \<longleftrightarrow> s1 = s2)"
proof
  assume "\<forall>s1 s2. compact_key s1 = compact_key s2 \<longleftrightarrow> s1 = s2"
  moreover have "compact_key (Value True) = compact_key (Letter (MkLetter (ascii ''T'') 0))"
    by (simp add: compact_key_def letter_string_def)
  ultimately have "Value True = Letter (MkLetter (ascii ''T'') 0)" by blast
  then show False by simp
qed

section \<open>The spaced rendering, parsed again\<close>

lemma build_parsed: "parsed_form l \<Longrightarrow> parsed_form r \<Longrightarrow> parsed_form (build c l r)"
  by (cases c) auto

lemma parser_outputs:
  "\<forall>s k. Sentence_p inp = Some (s, k) \<longrightarrow> parsed_form s"
  "\<forall>s k. Binary_p c1 inp1 = Some (s, k) \<longrightarrow> parsed_form s"
  "\<forall>xs k. sepBy_p c2 inp2 = Some (xs, k) \<longrightarrow> list_all parsed_form xs"
  "\<forall>xs k. many_p c3 inp3 = Some (xs, k) \<longrightarrow> list_all parsed_form xs"
  "\<forall>s k. Factor_p inp4 = Some (s, k) \<longrightarrow> parsed_form s"
  "\<forall>s k. Not_p inp5 = Some (s, k) \<longrightarrow> parsed_form s"
  "\<forall>s k. Wrapped_p inp6 = Some (s, k) \<longrightarrow> parsed_form s"
  "\<forall>s k. bracketed_p b inp7 = Some (s, k) \<longrightarrow> parsed_form s"
proof (induction inp and c1 inp1 and c2 inp2 and c3 inp3 and inp4 and inp5 and inp6 and b inp7
    rule: Sentence_p_Binary_p_sepBy_p_many_p_Factor_p_Not_p_Wrapped_p_bracketed_p.induct)
  case (1 inp)
  then show ?case
    by (subst Sentence_p.simps) (auto simp: orelse_def split: option.splits)
next
  case (2 c inp)
  then show ?case
    by (subst Binary_p.simps) (auto simp: build_parsed split: option.splits list.splits)
next
  case (3 c inp)
  then show ?case
    by (subst sepBy_p.simps) (auto split: option.splits)
next
  case (4 c inp)
  then show ?case
    by (subst many_p.simps) (auto split: option.splits)
next
  case (5 inp)
  then show ?case
    by (subst Factor_p.simps) (auto simp: orelse_def Letter_p_def split: option.splits list.splits if_splits)
next
  case (6 inp)
  then show ?case
    by (subst Not_p.simps) (auto split: option.splits)
next
  case (7 inp)
  then show ?case
    by (subst Wrapped_p.simps) (auto simp: orelse_def split: option.splits if_splits)
next
  case (8 b inp)
  then show ?case
    by (subst bracketed_p.simps) (auto split: option.splits)
qed

lemma solid_not_space: "solid c \<Longrightarrow> \<not> is_space c"
  by (auto simp: solid_def is_space_def)

lemma optWhitespace_solid: "\<not> is_space c \<Longrightarrow> optWhitespace (c # u) = Some ([], 0)"
  by (simp add: optWhitespace_def)

lemma separator_close: "separator c (41 # u) = None"
  by (cases c) (simp_all add: separator_def optWhitespace_def alt_strings_def string_p_def
      orelse_def is_space_def ascii_def)

lemma separator_end: "separator c [] = None"
  by (cases c) (simp_all add: separator_def optWhitespace_def alt_strings_def string_p_def
      orelse_def is_space_def ascii_def)

lemma separator_amp:
  "\<not> is_space d \<Longrightarrow>
   separator c (32 # 38 # 32 # d # u) = (if c = R_And then Some ((), 3) else None)"
  by (cases c) (simp_all add: separator_def optWhitespace_def alt_strings_def string_p_def
      orelse_def is_space_def ascii_def)

lemma separator_bar:
  "\<not> is_space d \<Longrightarrow>
   separator c (32 # 124 # 32 # d # u) = (if c = R_Nand then Some ((), 3) else None)"
  by (cases c) (simp_all add: separator_def optWhitespace_def alt_strings_def string_p_def
      orelse_def is_space_def ascii_def)

lemma Factor_p_letter:
  "65 \<le> c \<Longrightarrow> c \<le> 90 \<Longrightarrow> Factor_p (c # rest) = Some (Letter (MkLetter [c] 0), 1)"
  by (simp add: Factor_p.simps Not_p.simps Wrapped_p.simps bracketed_p.simps Letter_p_def
      alt_strings_def connectives_negation_def string_p_def orelse_def ascii_def)

lemma Factor_p_not:
  assumes "Factor_p (c # u) = Some (x, k)" "\<not> is_space c"
  shows "Factor_p (126 # c # u) = Some (Negation x, Suc k)"
  using assms
  by (simp add: Factor_p.simps[of "126 # c # u"] Not_p.simps[of "126 # c # u"]
      alt_strings_def connectives_negation_def string_p_def orelse_def ascii_def
      optWhitespace_solid)

lemma optWhitespace_close: "optWhitespace (41 # u) = Some ([], 0)"
  by (simp add: optWhitespace_def is_space_def)

lemma Factor_p_wrapped:
  assumes S: "Sentence_p (c # u @ 41 # rest) = Some (s, Suc (length u))" and c: "\<not> is_space c"
    and n: "\<not> is_letter_or_negation s"
  shows "Factor_p (40 # c # u @ 41 # rest) = Some (s, length u + 3)"
proof -
  let ?inp = "40 # c # u @ 41 # rest"
  have 1: "Not_p ?inp = None"
    by (simp add: Not_p.simps[of ?inp] alt_strings_def connectives_negation_def string_p_def
        orelse_def ascii_def)
  have ow: "optWhitespace (c # u @ 41 # rest) = Some ([], 0)"
    using c by (rule optWhitespace_solid)
  have 2: "bracketed_p Round ?inp = Some (s, length u + 3)"
    by (simp add: bracketed_p.simps[of Round ?inp] string_p_def ascii_def ow S
        optWhitespace_close)
  from 1 2 n show ?thesis
    by (simp add: Factor_p.simps[of ?inp] Wrapped_p.simps[of ?inp] orelse_def)
qed

lemma Binary_p_one_operand:
  assumes "Factor_p (x @ rest) = Some (s, length x)" "separator c rest = None"
  shows "Binary_p c (x @ rest) = None"
proof -
  have "many_p c rest = Some ([], 0)"
    using assms(2) by (simp add: many_p.simps[of c rest])
  then have "sepBy_p c (x @ rest) = Some ([s], length x)"
    using assms(1) by (simp add: sepBy_p.simps[of c "x @ rest"])
  then show ?thesis by (simp add: Binary_p.simps[of c "x @ rest"])
qed

lemma Sentence_p_one_operand:
  assumes "Factor_p (x @ rest) = Some (s, length x)" "\<And>c. separator c rest = None"
  shows "Sentence_p (x @ rest) = Some (s, length x)"
  using assms(1) Binary_p_one_operand[OF assms(1) assms(2)]
  by (simp add: Sentence_p.simps[of "x @ rest"] orelse_def)

lemma Binary_p_two_operands:
  assumes Fl: "Factor_p (wl @ mid @ wr @ rest) = Some (l, length wl)"
    and Fr: "Factor_p (wr @ rest) = Some (r, length wr)"
    and sep: "separator c (mid @ wr @ rest) = Some ((), length mid)"
    and nosep: "separator c rest = None"
  shows "Binary_p c (wl @ mid @ wr @ rest) =
           Some (build c l r, length wl + length mid + length wr)"
proof -
  have 1: "many_p c rest = Some ([], 0)"
    using nosep by (simp add: many_p.simps[of c rest])
  have 2: "many_p c (mid @ wr @ rest) = Some ([r], length mid + length wr)"
    using sep Fr 1 by (simp add: many_p.simps[of c "mid @ wr @ rest"])
  have "sepBy_p c (wl @ mid @ wr @ rest) = Some ([l, r], length wl + (length mid + length wr))"
    using Fl 2 by (simp add: sepBy_p.simps[of c "wl @ mid @ wr @ rest"])
  then show ?thesis by (simp add: Binary_p.simps[of c "wl @ mid @ wr @ rest"])
qed

lemma Sentence_p_two_operands:
  assumes Fl: "Factor_p (wl @ mid @ wr @ rest) = Some (l, length wl)"
    and Fr: "Factor_p (wr @ rest) = Some (r, length wr)"
    and sep: "\<And>c. separator c (mid @ wr @ rest) = (if c = c0 then Some ((), length mid) else None)"
    and nosep: "\<And>c. separator c rest = None"
  shows "Sentence_p (wl @ mid @ wr @ rest) =
           Some (build c0 l r, length wl + length mid + length wr)"
proof -
  let ?inp = "wl @ mid @ wr @ rest"
  have yes: "Binary_p c0 ?inp = Some (build c0 l r, length wl + length mid + length wr)"
    using Binary_p_two_operands[OF Fl Fr _ nosep, of c0] sep by simp
  have no: "Binary_p c ?inp = None" if "c \<noteq> c0" for c
    using Binary_p_one_operand[of wl "mid @ wr @ rest" l c] Fl sep that by simp
  show ?thesis
    using yes no by (cases c0) (simp_all add: Sentence_p.simps[of ?inp] orelse_def)
qed

lemma to_string_first:
  "parsed_form s \<Longrightarrow> only_typed_symbols s \<Longrightarrow> 
   (\<exists>c u. to_string True s = c # u \<and> solid c) \<and> (\<exists>c u. to_string False s = c # u \<and> solid c)"
  by (induction s) (auto simp: solid_def letter_string_def binary_string_def ascii_def)

lemma to_string_last:
  "parsed_form s \<Longrightarrow> only_typed_symbols s \<Longrightarrow>
   to_string w s \<noteq> [] \<and> \<not> is_space (last (to_string w s))"
  by (induction s arbitrary: w)
     (auto simp: letter_string_def binary_string_def ascii_def is_space_def)

lemma reparse_binary:
  assumes Fl: "\<And>rest. Factor_p (to_string True l @ rest) = Some (l, length (to_string True l))"
    and Fr: "\<And>rest. Factor_p (to_string True r @ rest) = Some (r, length (to_string True r))"
    and pl: "parsed_form l" "only_typed_symbols l" and pr: "parsed_form r" "only_typed_symbols r"
    and sep: "\<And>c d u. \<not> is_space d \<Longrightarrow>
        separator c (32 # op # 32 # d # u) = (if c = c0 then Some ((), 3) else None)"
    and ts: "to_string False s = to_string True l @ [32, op, 32] @ to_string True r"
    and tw: "to_string True s = 40 # to_string False s @ [41]"
    and b: "build c0 l r = s" and n: "\<not> is_letter_or_negation s"
  shows "(\<forall>rest. Factor_p (to_string True s @ rest) = Some (s, length (to_string True s)))
     \<and> (\<forall>rest. (\<forall>c. separator c rest = None) \<longrightarrow>
           Sentence_p (to_string False s @ rest) = Some (s, length (to_string False s)))"
proof -
  let ?wl = "to_string True l" and ?wr = "to_string True r"
  from to_string_first[OF pr] obtain d v where wr: "?wr = d # v" "solid d" by blast
  from to_string_first[OF pl] obtain c u where wl: "?wl = c # u" "solid c" by blast
  have S: "Sentence_p (to_string False s @ rest) = Some (s, length (to_string False s))"
    if nosep: "\<And>c. separator c rest = None" for rest
  proof -
    have "\<And>c. separator c ([32, op, 32] @ ?wr @ rest) =
            (if c = c0 then Some ((), length [32, op, 32]) else None)"
      using sep[OF solid_not_space[OF wr(2)]] by (simp add: wr(1))
    from Sentence_p_two_operands[OF Fl Fr this nosep] b show ?thesis
      by (simp add: ts)
  qed
  have F: "Factor_p (to_string True s @ rest) = Some (s, length (to_string True s))" for rest
  proof -
    have t: "to_string False s = c # (u @ [32, op, 32] @ ?wr)"
      by (simp add: ts wl(1))
    have "Sentence_p (to_string False s @ 41 # rest) = Some (s, length (to_string False s))"
      by (rule S) (rule separator_close)
    then have "Sentence_p (c # (u @ [32, op, 32] @ ?wr) @ 41 # rest) =
        Some (s, Suc (length (u @ [32, op, 32] @ ?wr)))"
      by (simp add: t)
    from Factor_p_wrapped[OF this solid_not_space[OF wl(2)] n] show ?thesis
      by (simp add: tw t)
  qed
  from S F show ?thesis by blast
qed

lemma reparse:
  "parsed_form s \<Longrightarrow> only_typed_symbols s \<Longrightarrow>
   (\<forall>rest. Factor_p (to_string True s @ rest) = Some (s, length (to_string True s)))
   \<and> (\<forall>rest. (\<forall>c. separator c rest = None) \<longrightarrow>
         Sentence_p (to_string False s @ rest) = Some (s, length (to_string False s)))"
proof (induction s)
  case (Value x)
  then show ?case by simp
next
  case (Letter l)
  then obtain c where l: "l = MkLetter [c] 0" "65 \<le> c" "c \<le> 90" by auto
  then have ts: "\<And>w. to_string w (Letter l) = [c]" by (simp add: letter_string_def)
  have F: "\<And>rest. Factor_p ([c] @ rest) = Some (Letter l, length [c])"
    using Factor_p_letter[OF l(2,3)] l(1) by simp
  from Sentence_p_one_operand[OF F] F show ?case by (simp only: ts) blast
next
  case (Negation x)
  then have px: "parsed_form x" "only_typed_symbols x" by simp_all
  from Negation.IH[OF px]
  have Fx: "\<And>rest. Factor_p (to_string True x @ rest) = Some (x, length (to_string True x))"
    by blast
  from to_string_first[OF px] obtain c u where wx: "to_string True x = c # u" "solid c" by blast
  have ts: "\<And>w. to_string w (Negation x) = 126 # c # u" by (simp add: wx(1) ascii_def)
  have F: "Factor_p ((126 # c # u) @ rest) = Some (Negation x, length (126 # c # u))" for rest
    using Factor_p_not[OF _ solid_not_space[OF wx(2)], of "u @ rest" x "length (c # u)"]
      Fx[of rest] by (simp add: wx(1))
  from Sentence_p_one_operand[OF F] F show ?case by (simp only: ts) blast
next
  case (Conjunction l r)
  then have p: "parsed_form l" "only_typed_symbols l" "parsed_form r" "only_typed_symbols r"
    by simp_all
  from Conjunction.IH(1)[OF p(1,2)] Conjunction.IH(2)[OF p(3,4)]
  have F: "\<And>rest. Factor_p (to_string True l @ rest) = Some (l, length (to_string True l))"
    "\<And>rest. Factor_p (to_string True r @ rest) = Some (r, length (to_string True r))"
    by blast+
  show ?case
    by (rule reparse_binary[OF F p, where op = 38 and ?c0.0 = R_And])
       (simp_all add: separator_amp binary_string_def ascii_def)
next
  case (Nand l r)
  then have p: "parsed_form l" "only_typed_symbols l" "parsed_form r" "only_typed_symbols r"
    by simp_all
  from Nand.IH(1)[OF p(1,2)] Nand.IH(2)[OF p(3,4)]
  have F: "\<And>rest. Factor_p (to_string True l @ rest) = Some (l, length (to_string True l))"
    "\<And>rest. Factor_p (to_string True r @ rest) = Some (r, length (to_string True r))"
    by blast+
  show ?case
    by (rule reparse_binary[OF F p, where op = 124 and ?c0.0 = R_Nand])
       (simp_all add: separator_bar binary_string_def ascii_def)
qed simp_all

lemma trim_solid:
  assumes "s \<noteq> []" "\<not> is_space (hd s)" "\<not> is_space (last s)"
  shows "trim s = s"
proof -
  from assms have "dropWhile is_space s = s" by (cases s) auto
  moreover from assms have "dropWhile is_space (rev s) = rev s"
    by (cases "rev s") (auto simp: last_rev[symmetric] hd_rev)
  ultimately show ?thesis by (simp add: trim_def)
qed

lemma parse_sentence_to_string:
  assumes "parsed_form s" "only_typed_symbols s"
  shows "parse_sentence (sentence_to_string s) = Inr s"
proof -
  let ?t = "to_string False s"
  from to_string_first[OF assms] obtain c u where t: "?t = c # u" "solid c" by blast
  with to_string_last[OF assms, of False] have "trim ?t = ?t"
    by (intro trim_solid) (auto dest: solid_not_space)
  moreover from reparse[OF assms] separator_end
  have "Sentence_p (?t @ []) = Some (s, length ?t)" by blast
  ultimately show ?thesis
    by (simp add: parse_sentence_def sentence_to_string_def)
qed

lemma parse_sentence_parsed_form: "parse_sentence inp = Inr s \<Longrightarrow> parsed_form s"
  using parser_outputs(1)[of "trim inp"]
  by (auto simp: parse_sentence_def Let_def split: option.splits if_splits)

lemma grammatical_0 [simp]: "grammatical 0 inp"
  by (simp add: grammatical_def)

lemma grammatical_add:
  "grammatical k1 inp \<Longrightarrow> grammatical k2 (drop k1 inp) \<Longrightarrow> grammatical (k1 + k2) inp"
  by (auto simp: grammatical_def take_add)

lemma string_p_grammatical:
  "string_p str inp = Some (v, k) \<Longrightarrow> \<forall>c\<in>set str. grammar_char c \<Longrightarrow> grammatical k inp"
  by (auto simp: string_p_def grammatical_def split: if_splits)
     (metis length_take min.cobounded1)

lemma alt_strings_grammatical:
  "alt_strings strs inp = Some (v, k) \<Longrightarrow> \<forall>s\<in>set strs. \<forall>c\<in>set s. grammar_char c \<Longrightarrow>
   grammatical k inp"
  by (induction strs)
     (auto simp: alt_strings_def orelse_def split: option.splits dest: string_p_grammatical)

lemma optWhitespace_grammatical: "optWhitespace inp = Some (v, k) \<Longrightarrow> grammatical k inp"
proof -
  assume "optWhitespace inp = Some (v, k)"
  then have k: "k = length (takeWhile is_space inp)" by (auto simp: optWhitespace_def)
  have "take k inp = takeWhile is_space inp"
    unfolding k by (rule takeWhile_eq_take[symmetric])
  then have "\<forall>c\<in>set (take k inp). is_space c" by (auto dest: set_takeWhileD)
  then show ?thesis by (simp add: grammatical_def grammar_char_def k length_takeWhile_le)
qed

lemma connectives_grammatical: "\<forall>s\<in>set (connectives c). \<forall>x\<in>set s. grammar_char x"
  by (cases c) (auto simp: grammar_char_def ascii_def)

lemma separator_grammatical:
  assumes "separator c inp = Some (u, k)"
  shows "grammatical k inp"
proof -
  from assms obtain v1 k1 v2 k2 v3 k3 where
    1: "optWhitespace inp = Some (v1, k1)" and
    2: "alt_strings (connectives c) (drop k1 inp) = Some (v2, k2)" and
    3: "optWhitespace (drop (k1 + k2) inp) = Some (v3, k3)" and
    k: "k = k1 + k2 + k3"
    by (auto simp: separator_def split: option.splits)
  have "grammatical (k1 + k2) inp"
    using optWhitespace_grammatical[OF 1]
      alt_strings_grammatical[OF 2 connectives_grammatical] by (rule grammatical_add)
  then show ?thesis
    unfolding k using optWhitespace_grammatical[OF 3] by (rule grammatical_add)
qed

lemma bracket_grammatical:
  "\<forall>c\<in>set (open_bracket b). grammar_char c" "\<forall>c\<in>set (close_bracket b). grammar_char c"
  by (cases b; simp add: grammar_char_def ascii_def)+

lemma Letter_p_grammatical: "Letter_p inp = Some (s, k) \<Longrightarrow> grammatical k inp"
  by (auto simp: Letter_p_def grammatical_def grammar_char_def split: list.splits if_splits)

lemma parser_consumes:
  "\<forall>s k. Sentence_p inp = Some (s, k) \<longrightarrow> grammatical k inp"
  "\<forall>s k. Binary_p c1 inp1 = Some (s, k) \<longrightarrow> grammatical k inp1"
  "\<forall>xs k. sepBy_p c2 inp2 = Some (xs, k) \<longrightarrow> grammatical k inp2"
  "\<forall>xs k. many_p c3 inp3 = Some (xs, k) \<longrightarrow> grammatical k inp3"
  "\<forall>s k. Factor_p inp4 = Some (s, k) \<longrightarrow> grammatical k inp4"
  "\<forall>s k. Not_p inp5 = Some (s, k) \<longrightarrow> grammatical k inp5"
  "\<forall>s k. Wrapped_p inp6 = Some (s, k) \<longrightarrow> grammatical k inp6"
  "\<forall>s k. bracketed_p b inp7 = Some (s, k) \<longrightarrow> grammatical k inp7"
proof (induction inp and c1 inp1 and c2 inp2 and c3 inp3 and inp4 and inp5 and inp6 and b inp7
    rule: Sentence_p_Binary_p_sepBy_p_many_p_Factor_p_Not_p_Wrapped_p_bracketed_p.induct)
  case (1 inp)
  then show ?case
    by (subst Sentence_p.simps) (auto simp: orelse_def split: option.splits)
next
  case (2 c inp)
  then show ?case
    by (subst Binary_p.simps) (auto split: option.splits list.splits)
next
  case (3 c inp)
  then show ?case
    by (subst sepBy_p.simps) (auto split: option.splits intro: grammatical_add)
next
  case (4 c inp)
  show ?case
  proof (intro allI impI)
    fix xs k assume a: "many_p c inp = Some (xs, k)"
    show "grammatical k inp"
    proof (cases "separator c inp")
      case None
      with a show ?thesis by (simp add: many_p.simps[of c inp])
    next
      case (Some x)
      obtain u k1 where x: "x = (u, k1)" by (cases x)
      from Some x have g1: "grammatical k1 inp" using separator_grammatical by blast
      show ?thesis
      proof (cases "Factor_p (drop k1 inp)")
        case None
        with a Some x show ?thesis by (simp add: many_p.simps[of c inp])
      next
        case F: (Some y)
        obtain s k2 where y: "y = (s, k2)" by (cases y)
        from "4.IH"(1)[OF Some x[symmetric]] F y have g2: "grammatical k2 (drop k1 inp)" by blast
        from a Some x F y obtain ys k3 where
          m: "many_p c (drop (k1 + k2) inp) = Some (ys, k3)" and k: "k = k1 + k2 + k3"
          by (auto simp: many_p.simps[of c inp] split: option.splits)
        from "4.IH"(2)[OF Some x[symmetric] F y[symmetric]] m
        have g3: "grammatical k3 (drop (k1 + k2) inp)" by blast
        from grammatical_add[OF grammatical_add[OF g1 g2] g3] k show ?thesis by simp
      qed
    qed
  qed
next
  case (5 inp)
  then show ?case
    by (subst Factor_p.simps) (auto simp: orelse_def split: option.splits dest: Letter_p_grammatical)
next
  case (6 inp)
  show ?case
  proof (intro allI impI)
    fix s k assume a: "Not_p inp = Some (s, k)"
    then obtain v1 k1 v2 k2 x k3 where
      1: "alt_strings connectives_negation inp = Some (v1, k1)" and
      2: "optWhitespace (drop k1 inp) = Some (v2, k2)" and
      3: "Factor_p (drop (k1 + k2) inp) = Some (x, k3)" and k: "k = k1 + k2 + k3"
      by (auto simp: Not_p.simps[of inp] split: option.splits)
    have g1: "grammatical k1 inp"
      by (rule alt_strings_grammatical[OF 1])
         (simp add: connectives_negation_def grammar_char_def ascii_def)
    from "6.IH"[OF 1 refl 2 refl] 3 have g3: "grammatical k3 (drop (k1 + k2) inp)" by blast
    from grammatical_add[OF grammatical_add[OF g1 optWhitespace_grammatical[OF 2]] g3] k
    show "grammatical k inp" by simp
  qed
next
  case (7 inp)
  then show ?case
    by (subst Wrapped_p.simps) (auto simp: orelse_def split: option.splits if_splits)
next
  case (8 b inp)
  show ?case
  proof (intro allI impI)
    fix s k assume a: "bracketed_p b inp = Some (s, k)"
    then obtain v1 k1 v2 k2 k3 v4 k4 v5 k5 where
      1: "string_p (open_bracket b) inp = Some (v1, k1)" and
      2: "optWhitespace (drop k1 inp) = Some (v2, k2)" and
      3: "Sentence_p (drop (k1 + k2) inp) = Some (s, k3)" and
      4: "optWhitespace (drop (k1 + k2 + k3) inp) = Some (v4, k4)" and
      5: "string_p (close_bracket b) (drop (k1 + k2 + k3 + k4) inp) = Some (v5, k5)" and
      k: "k = k1 + k2 + k3 + k4 + k5"
      by (auto simp: bracketed_p.simps[of b inp] split: option.splits)
    from "8.IH"[OF 1 refl 2 refl] 3 have g3: "grammatical k3 (drop (k1 + k2) inp)" by blast
    have g12: "grammatical (k1 + k2) inp"
      using string_p_grammatical[OF 1 bracket_grammatical(1)] optWhitespace_grammatical[OF 2]
      by (rule grammatical_add)
    have g123: "grammatical (k1 + k2 + k3) inp"
      using g12 g3 by (rule grammatical_add)
    have g1234: "grammatical (k1 + k2 + k3 + k4) inp"
      using g123 optWhitespace_grammatical[OF 4] by (rule grammatical_add)
    show "grammatical k inp"
      unfolding k using g1234 string_p_grammatical[OF 5 bracket_grammatical(2)]
      by (rule grammatical_add)
  qed
qed

lemma display_symbol_rendered:
  "\<not> only_typed_symbols s \<Longrightarrow> \<exists>c\<in>set (to_string w s). \<not> grammar_char c"
proof (induction s arbitrary: w)
  case (Negation s)
  then show ?case by auto
next
  case (Conjunction l r)
  then have "\<not> only_typed_symbols l \<or> \<not> only_typed_symbols r" by simp
  then show ?case
    using Conjunction.IH(1)[of True] Conjunction.IH(2)[of True]
    by (auto simp: binary_string_def)
next
  case (Nand l r)
  then have "\<not> only_typed_symbols l \<or> \<not> only_typed_symbols r" by simp
  then show ?case
    using Nand.IH(1)[of True] Nand.IH(2)[of True]
    by (auto simp: binary_string_def)
next
  case (Disjunction l r)
  have "u_or \<in> set (to_string w (Disjunction l r))" by (simp add: binary_string_def)
  moreover have "\<not> grammar_char u_or"
    by (simp add: grammar_char_def is_space_def ascii_def u_defs)
  ultimately show ?case by blast
next
  case (Conditional l r)
  have "u_imp \<in> set (to_string w (Conditional l r))" by (simp add: binary_string_def)
  moreover have "\<not> grammar_char u_imp"
    by (simp add: grammar_char_def is_space_def ascii_def u_defs)
  ultimately show ?case by blast
next
  case (Biconditional l r)
  have "u_iff \<in> set (to_string w (Biconditional l r))" by (simp add: binary_string_def)
  moreover have "\<not> grammar_char u_iff"
    by (simp add: grammar_char_def is_space_def ascii_def u_defs)
  ultimately show ?case by blast
next
  case (Xor l r)
  have "u_xor \<in> set (to_string w (Xor l r))" by (simp add: binary_string_def)
  moreover have "\<not> grammar_char u_xor"
    by (simp add: grammar_char_def is_space_def ascii_def u_defs)
  ultimately show ?case by blast
qed simp_all

lemma dropWhile_keeps: "x \<in> set xs \<Longrightarrow> \<not> P x \<Longrightarrow> x \<in> set (dropWhile P xs)"
  by (induction xs) auto

lemma trim_keeps: "c \<in> set s \<Longrightarrow> \<not> is_space c \<Longrightarrow> c \<in> set (trim s)"
  unfolding trim_def using dropWhile_keeps[of c "rev (dropWhile is_space s)" is_space]
    dropWhile_keeps[of c s is_space] by simp

lemma parse_sentence_grammatical:
  assumes "parse_sentence inp = Inr s"
  shows "\<forall>c\<in>set (trim inp). grammar_char c"
proof -
  from assms have "Sentence_p (trim inp) = Some (s, length (trim inp))"
    by (auto simp: parse_sentence_def Let_def split: option.splits if_splits)
  with parser_consumes(1)[of "trim inp"] have "grammatical (length (trim inp)) (trim inp)"
    by blast
  then show ?thesis by (simp add: grammatical_def)
qed

lemma parse_sentence_failure: "parse_sentence inp = Inl e \<Longrightarrow> e = diagnoseError"
  by (auto simp: parse_sentence_def Let_def split: option.splits if_splits)

lemma parse_sentence_display_symbols:
  assumes "\<not> only_typed_symbols s"
  shows "parse_sentence (sentence_to_string s) = Inl diagnoseError"
proof (cases "parse_sentence (sentence_to_string s)")
  case (Inl e)
  then show ?thesis using parse_sentence_failure by blast
next
  case (Inr s')
  from display_symbol_rendered[OF assms, of False] obtain c where
    c: "c \<in> set (sentence_to_string s)" "\<not> grammar_char c"
    by (auto simp: sentence_to_string_def)
  then have "\<not> is_space c" by (auto simp: grammar_char_def)
  with c(1) have "c \<in> set (trim (sentence_to_string s))" by (rule trim_keeps)
  with parse_sentence_grammatical[OF Inr] c(2) show ?thesis by blast
qed

text \<open>
  C1 (as the code has it). For a sentence \<open>s\<close> obtained from \<open>parse_sentence\<close>: when its
  connectives are among negation, conjunction and nand, re-parsing its spaced string
  form succeeds and yields \<open>s\<close> itself, which evaluates as \<open>s\<close> does under every
  assignment; when it has a disjunction, a conditional, a biconditional or an xor,
  re-parsing its spaced string form fails.
\<close>

theorem reparse_spaced_form:
  "parse_sentence inp = Inr s \<Longrightarrow>
   (only_typed_symbols s \<longrightarrow>
      (\<exists>s'. parse_sentence (sentence_to_string s) = Inr s' \<and> s' = s
           \<and> (\<forall>a. evaluate a s' = evaluate a s)))
   \<and> (\<not> only_typed_symbols s \<longrightarrow> parse_sentence (sentence_to_string s) = Inl diagnoseError)"
  using parse_sentence_to_string[OF parse_sentence_parsed_form] parse_sentence_display_symbols
  by simp

theorem reparse_spaced_form_witness:
  "parse_sentence (ascii ''~(A&B) | C'') =
     Inr (Nand (Negation (Conjunction (sentence_letter ''A'') (sentence_letter ''B'')))
            (sentence_letter ''C''))
   \<and> sentence_to_string
       (Nand (Negation (Conjunction (sentence_letter ''A'') (sentence_letter ''B'')))
            (sentence_letter ''C'')) = ascii ''~(A & B) | C''
   \<and> parse_sentence (ascii ''~(A & B) | C'') =
     Inr (Nand (Negation (Conjunction (sentence_letter ''A'') (sentence_letter ''B'')))
            (sentence_letter ''C''))
   \<and> parse_sentence (ascii ''A -> B'') =
     Inr (Conditional (sentence_letter ''A'') (sentence_letter ''B''))
   \<and> parse_sentence (sentence_to_string
        (Conditional (sentence_letter ''A'') (sentence_letter ''B''))) = Inl diagnoseError"
proof -
  let ?s = "Nand (Negation (Conjunction (sentence_letter ''A'') (sentence_letter ''B'')))
            (sentence_letter ''C'')"
  let ?c = "Conditional (sentence_letter ''A'') (sentence_letter ''B'')"
  have p: "parse_sentence (ascii ''~(A&B) | C'') = Inr ?s"
    by (simp add: parser_defs)
  have o: "only_typed_symbols ?s" by simp
  have t: "sentence_to_string ?s = ascii ''~(A & B) | C''"
    by (simp add: sentence_to_string_def binary_string_def letter_string_def ascii_def)
  from reparse_spaced_form[OF p] o have "parse_sentence (sentence_to_string ?s) = Inr ?s"
    by blast
  with t have 1: "parse_sentence (ascii ''~(A & B) | C'') = Inr ?s" by simp
  have q: "parse_sentence (ascii ''A -> B'') = Inr ?c"
    by (simp add: parser_defs)
  have "\<not> only_typed_symbols ?c" by simp
  with reparse_spaced_form[OF q] have 2: "parse_sentence (sentence_to_string ?c) = Inl diagnoseError"
    by blast
  from p t 1 q 2 show ?thesis by blast
qed

text \<open>
  C1 as stated fails: \<open>A v B\<close> parses to a disjunction, whose spaced form shows the
  symbol U+2228, which the parser does not read.
\<close>

theorem reparse_display_symbol_counterexample:
  "\<not> (\<forall>inp s. parse_sentence inp = Inr s \<longrightarrow>
        (\<exists>s'. parse_sentence (sentence_to_string s) = Inr s'
             \<and> (\<forall>a. evaluate a s' = evaluate a s)))"
proof
  assume h: "\<forall>inp s. parse_sentence inp = Inr s \<longrightarrow>
        (\<exists>s'. parse_sentence (sentence_to_string s) = Inr s'
             \<and> (\<forall>a. evaluate a s' = evaluate a s))"
  let ?s = "Disjunction (sentence_letter ''A'') (sentence_letter ''B'')"
  have p: "parse_sentence (ascii ''A v B'') = Inr ?s"
    by (simp add: parser_defs)
  have t: "sentence_to_string ?s = [65, 32, u_or, 32, 66]"
    by (simp add: sentence_to_string_def binary_string_def letter_string_def ascii_def)
  have f: "parse_sentence [65, 32, u_or, 32, 66] = Inl diagnoseError"
    by (simp add: parser_defs u_defs)
  from h p obtain s' where "parse_sentence (sentence_to_string ?s) = Inr s'" by blast
  with t f show False by simp
qed

end
